theory Spec2Isabelle
  imports Complex_Main "HOL-Library.Log_Nat"
begin

section \<open>Strings as the source uses them\<close>

text \<open>
  A Python \<open>str\<close> is modelled as a \<open>string\<close> whose characters stand for the code points
  below 256. \<open>str.strip\<close> and \<open>str.lower\<close> are written out for exactly that range.
\<close>

definition is_space :: "char \<Rightarrow> bool" where
  "is_space c = ((of_char c :: nat) \<in> {9, 10, 11, 12, 13, 28, 29, 30, 31, 32, 133, 160})"

definition strip :: "string \<Rightarrow> string" where
  "strip s = rev (dropWhile is_space (rev (dropWhile is_space s)))"

definition lower_char :: "char \<Rightarrow> char" where
  "lower_char c =
     (let n = (of_char c :: nat)
      in if (65 \<le> n \<and> n \<le> 90) \<or> (192 \<le> n \<and> n \<le> 222 \<and> n \<noteq> 215)
         then char_of (n + 32) else c)"

definition lower :: "string \<Rightarrow> string" where
  "lower s = map lower_char s"

text \<open>\<open>s.startswith(p)\<close>, \<open>sub in s\<close> and \<open>s.split(sep)\<close> for a one-character separator.\<close>

definition startswith :: "string \<Rightarrow> string \<Rightarrow> bool" where
  "startswith s p = (take (length p) s = p)"

fun contains :: "string \<Rightarrow> string \<Rightarrow> bool" where
  "contains [] sub = (sub = [])"
| "contains (c # cs) sub = (startswith (c # cs) sub \<or> contains cs sub)"

fun split_on :: "char \<Rightarrow> string \<Rightarrow> string list" where
  "split_on sep [] = [[]]"
| "split_on sep (c # cs) =
     (if c = sep then [] # split_on sep cs
      else (case split_on sep cs of
              [] \<Rightarrow> [[c]]
            | w # ws \<Rightarrow> (c # w) # ws))"

text \<open>\<open>link.split('/')[-1]\<close>: the text after the last slash, the whole string without one.\<close>

definition last_segment :: "string \<Rightarrow> string" where
  "last_segment link = rev (takeWhile (\<lambda>c. c \<noteq> CHR ''/'') (rev link))"

section \<open>The two regular expressions of \<open>extract_chat_links\<close>\<close>

definition strip_prefix :: "string \<Rightarrow> string \<Rightarrow> string option" where
  "strip_prefix p s = (if startswith s p then Some (drop (length p) s) else None)"

definition orelse :: "'a option \<Rightarrow> 'a option \<Rightarrow> 'a option" where
  "orelse a b = (case a of Some x \<Rightarrow> Some x | None \<Rightarrow> b)"

text \<open>The character class \<open>[a-zA-Z0-9_-]\<close>.\<close>

definition is_hash_char :: "char \<Rightarrow> bool" where
  "is_hash_char c =
     (let n = (of_char c :: nat)
      in (97 \<le> n \<and> n \<le> 122) \<or> (65 \<le> n \<and> n \<le> 90) \<or> (48 \<le> n \<and> n \<le> 57)
         \<or> c = CHR ''_'' \<or> c = CHR ''-'')"

text \<open>
  \<open>(?:t|telegram)\.me/(?:joinchat/|\+)([a-zA-Z0-9_-]+)\<close> matched at the start of a string;
  the result is group 1. Each alternative is tried in the order the pattern lists it, and
  the greedy class takes the longest run, which must not be empty.
\<close>

definition match_host :: "string \<Rightarrow> string option" where
  "match_host s =
     (case orelse (strip_prefix ''t.me/'' s) (strip_prefix ''telegram.me/'' s) of
        None \<Rightarrow> None
      | Some r \<Rightarrow>
          (case orelse (strip_prefix ''joinchat/'' r) (strip_prefix ''+'' r) of
             None \<Rightarrow> None
           | Some q \<Rightarrow>
               (let h = takeWhile is_hash_char q in if h = [] then None else Some h)))"

text \<open>
  The whole pattern \<open>(?:https?://)?(?:t|telegram)\.me/(?:joinchat/|\+)([a-zA-Z0-9_-]+)\<close> at the
  start of a string: the optional scheme is tried with \<open>s\<close>, without \<open>s\<close>, then left out.
\<close>

definition match_invite_at :: "string \<Rightarrow> string option" where
  "match_invite_at s =
     orelse (case strip_prefix ''https://'' s of Some r \<Rightarrow> match_host r | None \<Rightarrow> None)
       (orelse (case strip_prefix ''http://'' s of Some r \<Rightarrow> match_host r | None \<Rightarrow> None)
          (match_host s))"

text \<open>\<open>re.search\<close>: the leftmost start position at which the pattern matches.\<close>

fun search_invite :: "string \<Rightarrow> string option" where
  "search_invite [] = match_invite_at []"
| "search_invite (c # cs) = orelse (match_invite_at (c # cs)) (search_invite cs)"

text \<open>
  \<open>re.sub(r'^(?:https?://)?(?:t\.me/)?', '', line)\<close>: both groups are optional and anchored
  at the start, so the scheme goes when it is there and then \<open>t.me/\<close> goes when it is there.
\<close>

definition sub_scheme_host :: "string \<Rightarrow> string" where
  "sub_scheme_host line =
     (let r = (case orelse (strip_prefix ''https://'' line) (strip_prefix ''http://'' line) of
                 Some x \<Rightarrow> x | None \<Rightarrow> line)
      in case strip_prefix ''t.me/'' r of Some y \<Rightarrow> y | None \<Rightarrow> r)"

section \<open>\<open>UserAccount.extract_chat_links\<close>\<close>

text \<open>
  The link one line contributes, \<open>None\<close> when the line is skipped. A line that mentions
  \<open>joinchat\<close> or \<open>+\<close> but does not match the invite pattern falls through to the public branch.
\<close>

definition line_link :: "string \<Rightarrow> string option" where
  "line_link raw =
     (let line = strip raw
      in if line = [] then None
         else case (if contains line ''joinchat'' \<or> CHR ''+'' \<in> set line
                    then search_invite line else None) of
                Some invite_hash \<Rightarrow> Some (''https://t.me/joinchat/'' @ invite_hash)
              | None \<Rightarrow>
                  (let username =
                         (if startswith line ''@'' then drop 1 line
                          else if startswith line ''https://'' \<or> startswith line ''http://''
                                  \<or> startswith line ''t.me''
                               then sub_scheme_host line
                               else line)
                   in if username \<noteq> [] then Some (''https://t.me/'' @ username) else None))"

text \<open>The accumulators \<open>links\<close> and \<open>seen_links\<close>, and the guarded append both branches share.\<close>

type_synonym extract_state = "string list \<times> string set"

definition add_link :: "string \<Rightarrow> extract_state \<Rightarrow> extract_state" where
  "add_link link st =
     (case st of (links, seen_links) \<Rightarrow>
        if link \<notin> seen_links then (links @ [link], insert link seen_links) else st)"

definition process_line :: "extract_state \<Rightarrow> string \<Rightarrow> extract_state" where
  "process_line st raw = (case line_link raw of None \<Rightarrow> st | Some link \<Rightarrow> add_link link st)"

definition extract_chat_links :: "string \<Rightarrow> string list" where
  "extract_chat_links text = fst (foldl process_line ([], {}) (split_on (CHR 0x0A) text))"

text \<open>
  How the join loop reads a link back: an invite when it contains \<open>/joinchat/\<close> or \<open>+\<close>,
  with the last path segment as the hash or the username.
\<close>

definition is_invite :: "string \<Rightarrow> bool" where
  "is_invite link = (contains link ''/joinchat/'' \<or> CHR ''+'' \<in> set link)"

text \<open>The deduplication key the specification describes: kind and lower-cased identifier.\<close>

definition spec_key :: "string \<Rightarrow> bool \<times> string" where
  "spec_key link = (is_invite link, lower (last_segment link))"

text \<open>The candidate links of a text in line order, and first-seen deduplication of a list.\<close>

definition candidate_links :: "string \<Rightarrow> string list" where
  "candidate_links text = List.map_filter line_link (split_on (CHR 0x0A) text)"

definition first_seen :: "'a list \<Rightarrow> 'a list" where
  "first_seen xs = rev (remdups (rev xs))"

section \<open>\<open>SessionManager.release_lock\<close>\<close>

text \<open>
  The manager's two tables, \<open>locks\<close> (session name to open file) and \<open>lock_files\<close> (session
  name to path), with the part of the operating system \<open>release_lock\<close> touches: the open
  files that hold an advisory lock, the open files, and the paths that exist.
\<close>

record session_manager =
  locks :: "string \<rightharpoonup> nat"
  lock_files :: "string \<rightharpoonup> string"
  flocked :: "nat set"
  open_files :: "nat set"
  disk :: "string set"

text \<open>Which system calls of one \<open>release_lock\<close> call raise.\<close>

record os_outcome =
  unlock_raises :: bool
  close_raises :: bool
  remove_raises :: bool

text \<open>
  The body of the \<open>try\<close> block: \<open>True\<close> in the first component when an exception leaves it.
  \<open>locks.pop\<close> comes first, so the table entry is gone whatever the calls after it do;
  an \<open>OSError\<close> of \<open>os.remove\<close> is passed over inside the block.
\<close>

definition release_body :: "os_outcome \<Rightarrow> string \<Rightarrow> session_manager \<Rightarrow> bool \<times> session_manager" where
  "release_body os session_name m =
     (case locks m session_name of
        None \<Rightarrow> (False, m)
      | Some f \<Rightarrow>
          (let m1 = m\<lparr>locks := (locks m)(session_name := None)\<rparr>
           in if unlock_raises os then (True, m1)
              else let m2 = m1\<lparr>flocked := flocked m1 - {f}\<rparr>
                   in if close_raises os then (True, m2)
                      else let m3 = m2\<lparr>open_files := open_files m2 - {f}\<rparr>;
                               lock_file = lock_files m3 session_name;
                               m4 = m3\<lparr>lock_files := (lock_files m3)(session_name := None)\<rparr>
                           in case lock_file of
                                None \<Rightarrow> (False, m4)
                              | Some path \<Rightarrow>
                                  if path \<noteq> [] \<and> path \<in> disk m4 \<and> \<not> remove_raises os
                                  then (False, m4\<lparr>disk := disk m4 - {path}\<rparr>)
                                  else (False, m4)))"

text \<open>
  \<open>release_lock\<close>: the block under \<open>except Exception\<close>, which logs and goes on. The first
  component says whether an exception reaches the caller.
\<close>

definition release_lock :: "os_outcome \<Rightarrow> string \<Rightarrow> session_manager \<Rightarrow> bool \<times> session_manager" where
  "release_lock os session_name m =
     (case release_body os session_name m of (raised, m') \<Rightarrow> (False, m'))"

section \<open>Exceptions, results and the outside world of \<open>join_chats\<close>\<close>

text \<open>
  An exception carries its text \<open>str(e)\<close>. \<open>FloodWaitError\<close> is a subclass of \<open>Exception\<close>
  with the field \<open>seconds\<close>; \<open>BaseException\<close> stands for the exceptions that are not
  instances of \<open>Exception\<close> and so pass every \<open>except Exception\<close> clause.
\<close>

datatype exc = FloodWaitError int string | Exception string | BaseException string

fun is_Exception :: "exc \<Rightarrow> bool" where
  "is_Exception (FloodWaitError w m) = True"
| "is_Exception (Exception m) = True"
| "is_Exception (BaseException m) = False"

fun exc_str :: "exc \<Rightarrow> string" where
  "exc_str (FloodWaitError w m) = m"
| "exc_str (Exception m) = m"
| "exc_str (BaseException m) = m"

text \<open>
  The \<open>error\<close> value of a \<open>failed_chats\<close> entry or of an error dictionary: one constructor
  for each fixed message of the source, \<open>Str\<close> for \<open>str(e)\<close>.
\<close>

datatype error_text =
    WaitSeconds int
  | EmptyLinkList
  | ClientNotInitialized
  | ClientNotAuthorized
  | Str string

record results =
  success :: nat
  failed :: nat
  failed_chats :: "(string \<times> error_text) list"
  captcha_required :: "string list"
  captcha_screenshots :: "string list"
  captcha_solved :: "string list"
  already_member :: nat

datatype retval = ErrorDict error_text | ResultsDict results

text \<open>How a block ends: it runs to its end, returns a value, or raises.\<close>

datatype completion = Fallthrough | Return retval | Raise exc

text \<open>A dialog of the account, and the status message handle with its \<open>deleted\<close> attribute.\<close>

record dialog =
  is_channel :: bool
  username :: "string option"

record message =
  deleted :: bool

text \<open>
  The effects of a run, in the order they happen: the join requests, the sleeps, the edits
  \<open>update_status\<close> attempts (with the clock reading of the call and whether the edit
  returned), and the edit and the send of the final status. The rendered text of a status
  message is abstracted to its kind and subject.
\<close>

datatype request = JoinChannelRequest string | ImportChatInviteRequest string

datatype status_text = Progress string | FloodNotice int

datatype event =
    Connect
  | Attempt request
  | Sleep rat
  | StatusEdit int status_text bool
  | FinalEdit bool
  | FinalSend bool

text \<open>
  The outside world of one run. Clock readings are in microseconds, the resolution of
  \<open>datetime\<close>. The functions of the position \<open>i\<close> give what the platform answers at the
  \<open>i\<close>-th link (counted from 1, as \<open>enumerate(chat_links, 1)\<close> does): \<open>None\<close> when the call
  returns, the exception when it raises. \<open>asyncio.sleep\<close> always returns.
\<close>

record env =
  client_present :: bool
  is_connected :: bool
  connect_result :: "exc option"
  is_user_authorized :: "exc + bool"
  get_dialogs :: "exc + dialog list"
  status_msg :: "message option"
  now_start :: int
  now_progress :: "nat \<Rightarrow> int"
  now_flood :: "nat \<Rightarrow> int"
  edit_progress :: "nat \<Rightarrow> exc option"
  edit_flood :: "nat \<Rightarrow> exc option"
  join_result :: "nat \<Rightarrow> exc option"
  edit_final :: "exc option"
  send_final :: "exc option"

text \<open>
  The state of a run: the \<open>results\<close> dictionary, the account's \<open>join_count\<close> and
  \<open>current_delay\<close>, the local \<open>last_status_update\<close>, and the effects so far.
\<close>

record state = results +
  join_count :: nat
  current_delay :: rat
  last_status_update :: int
  trace :: "event list"

definition results_of :: "state \<Rightarrow> results" where
  "results_of s =
     \<lparr>success = success s, failed = failed s, failed_chats = failed_chats s,
      captcha_required = captcha_required s, captcha_screenshots = captcha_screenshots s,
      captcha_solved = captcha_solved s, already_member = already_member s\<rparr>"

text \<open>
  The state at the first line of \<open>join_chats\<close> for an account with the given attributes.
  \<open>last_status_update\<close> is assigned before its first use; until then it reads 0 here.
\<close>

definition start_state :: "nat \<Rightarrow> rat \<Rightarrow> state" where
  "start_state jc d =
     \<lparr>success = 0, failed = 0, failed_chats = [], captcha_required = [],
      captcha_screenshots = [], captcha_solved = [], already_member = 0,
      join_count = jc, current_delay = d, last_status_update = 0, trace = []\<rparr>"

definition log_event :: "event \<Rightarrow> state \<Rightarrow> state" where
  "log_event ev s = s\<lparr>trace := trace s @ [ev]\<rparr>"

section \<open>Float arithmetic of the delay\<close>

text \<open>
  \<open>current_delay * 1.1\<close> is a product of IEEE-754 doubles. A double is modelled by the
  rational it denotes; \<open>float_round\<close> rounds a rational to the nearest number with a 53-bit
  significand, ties to even. It is written for the range from 1 up, which holds every
  product the loop forms (between 11 and 660).
\<close>

definition round_half_even :: "rat \<Rightarrow> int" where
  "round_half_even z =
     (let f = \<lfloor>z\<rfloor>; r = z - of_int f
      in if r < 1 / 2 then f else if 1 / 2 < r then f + 1 else if even f then f else f + 1)"

definition float_round :: "rat \<Rightarrow> rat" where
  "float_round x =
     (let e = int (floorlog 2 (nat \<lfloor>x\<rfloor>)) - 1;
          ulp = (if 52 \<le> e then 2 ^ nat (e - 52) else 1 / 2 ^ nat (52 - e))
      in of_int (round_half_even (x / ulp)) * ulp)"

definition float_mul :: "rat \<Rightarrow> rat \<Rightarrow> rat" where
  "float_mul x y = float_round (x * y)"

text \<open>The literal \<open>1.1\<close>.\<close>

definition float_1_1 :: rat where
  "float_1_1 = float_round (11 / 10)"

section \<open>\<open>UserAccount.join_chats\<close>\<close>

text \<open>
  \<open>existing_chats\<close>: the lower-cased usernames of the channel dialogs that have one (its
  keys are all the loop uses). \<open>None\<close> and the empty string are both false in the filter.
\<close>

definition existing_chats :: "dialog list \<Rightarrow> string set" where
  "existing_chats dialogs =
     set (List.map_filter
            (\<lambda>d. if is_channel d
                  then (case username d of
                          None \<Rightarrow> None
                        | Some u \<Rightarrow> if u \<noteq> [] then Some (lower u) else None)
                  else None)
            dialogs)"

text \<open>The test both loops apply to a link, whatever its kind.\<close>

definition in_existing :: "string set \<Rightarrow> string \<Rightarrow> bool" where
  "in_existing existing link = (lower (last_segment link) \<in> existing)"

text \<open>The first loop, which counts the links of the list that pass that test.\<close>

fun count_existing :: "string set \<Rightarrow> string list \<Rightarrow> state \<Rightarrow> state" where
  "count_existing existing [] s = s"
| "count_existing existing (link # links) s =
     count_existing existing links
       (if in_existing existing link then s\<lparr>already_member := already_member s + 1\<rparr> else s)"

text \<open>\<open>status_msg and not getattr(status_msg, 'deleted', False)\<close>.\<close>

definition status_live :: "message option \<Rightarrow> bool" where
  "status_live m = (case m of None \<Rightarrow> False | Some msg \<Rightarrow> \<not> deleted msg)"

text \<open>
  \<open>update_status\<close>, called at clock reading \<open>current_time\<close>; \<open>edit_result\<close> is what
  \<open>edit_message\<close> does if it is called. Both \<open>except Exception\<close> clauses log and go on, so
  only an exception that is not an \<open>Exception\<close> leaves the function.
\<close>

definition update_status ::
  "env \<Rightarrow> int \<Rightarrow> exc option \<Rightarrow> status_text \<Rightarrow> state \<Rightarrow> exc option \<times> state" where
  "update_status env current_time edit_result text s =
     (if current_time - last_status_update s < 2000000 then (None, s)
      else if status_live (status_msg env) then
        (case edit_result of
           None \<Rightarrow>
             (None, (log_event (StatusEdit current_time text True) s)
                      \<lparr>last_status_update := current_time\<rparr>)
         | Some e \<Rightarrow>
             (if is_Exception e then None else Some e,
              log_event (StatusEdit current_time text False) s))
      else (None, s))"

text \<open>The delay after a successful join, from the incremented \<open>join_count\<close>.\<close>

definition next_delay :: "nat \<Rightarrow> rat \<Rightarrow> rat" where
  "next_delay jc d =
     (if jc = 1 then 10 else if jc = 2 then 60 else min 600 (float_mul d float_1_1))"

text \<open>
  The inner \<open>try\<close> block at position \<open>i\<close>: the request, then the counters, the new delay and
  the sleep. The first component is the exception the request raised, if it did.
\<close>

definition join_attempt :: "env \<Rightarrow> nat \<Rightarrow> string \<Rightarrow> state \<Rightarrow> exc option \<times> state" where
  "join_attempt env i link s =
     (let req = (if is_invite link then ImportChatInviteRequest (last_segment link)
                 else JoinChannelRequest (last_segment link));
          s1 = log_event (Attempt req) s
      in case join_result env i of
           Some e \<Rightarrow> (Some e, s1)
         | None \<Rightarrow>
             (let s2 = s1\<lparr>success := success s1 + 1, join_count := join_count s1 + 1\<rparr>;
                  s3 = s2\<lparr>current_delay := next_delay (join_count s2) (current_delay s2)\<rparr>
              in (None, log_event (Sleep (current_delay s3)) s3)))"

text \<open>The clause \<open>except FloodWaitError\<close>, which ends with \<open>continue\<close>.\<close>

definition on_flood_wait :: "env \<Rightarrow> nat \<Rightarrow> string \<Rightarrow> int \<Rightarrow> state \<Rightarrow> exc option \<times> state" where
  "on_flood_wait env i link wait_time s =
     (let s1 = s\<lparr>failed_chats := failed_chats s @ [(link, WaitSeconds wait_time)],
                 failed := failed s + 1\<rparr>
      in case update_status env (now_flood env i) (edit_flood env i) (FloodNotice wait_time) s1 of
           (Some e, s2) \<Rightarrow> (Some e, s2)
         | (None, s2) \<Rightarrow>
             (None, (log_event (Sleep (of_int wait_time)) s2)\<lparr>current_delay := 10\<rparr>))"

text \<open>The clause \<open>except Exception\<close> of the inner \<open>try\<close>.\<close>

definition on_exception :: "string \<Rightarrow> exc \<Rightarrow> state \<Rightarrow> state" where
  "on_exception link e s =
     (if contains (lower (exc_str e)) ''captcha''
      then s\<lparr>captcha_required := captcha_required s @ [link], failed := failed s + 1\<rparr>
      else s\<lparr>failed_chats := failed_chats s @ [(link, Str (exc_str e))],
             failed := failed s + 1\<rparr>)"

text \<open>
  One pass of the \<open>for\<close> loop. The result \<open>None\<close> means the pass ended (at its end or by
  \<open>continue\<close>); an exception in the first component leaves the loop.
\<close>

definition join_iteration ::
  "env \<Rightarrow> string set \<Rightarrow> nat \<Rightarrow> string \<Rightarrow> state \<Rightarrow> exc option \<times> state" where
  "join_iteration env existing i link s =
     (if in_existing existing link then (None, s)
      else
        (case (case update_status env (now_progress env i) (edit_progress env i)
                       (Progress link) s of
                 (Some e, s1) \<Rightarrow> (Some e, s1)
               | (None, s1) \<Rightarrow>
                   (case join_attempt env i link s1 of
                      (None, s2) \<Rightarrow> (None, s2)
                    | (Some (FloodWaitError wait_time m), s2) \<Rightarrow>
                        on_flood_wait env i link wait_time s2
                    | (Some (Exception m), s2) \<Rightarrow> (None, on_exception link (Exception m) s2)
                    | (Some (BaseException m), s2) \<Rightarrow> (Some (BaseException m), s2))) of
           (None, s') \<Rightarrow> (None, s')
         | (Some e, s') \<Rightarrow>
             if is_Exception e
             then (None, s'\<lparr>failed := failed s' + 1,
                            failed_chats := failed_chats s' @ [(link, Str (exc_str e))]\<rparr>)
             else (Some e, s')))"

fun join_loop ::
  "env \<Rightarrow> string set \<Rightarrow> nat \<Rightarrow> string list \<Rightarrow> state \<Rightarrow> exc option \<times> state" where
  "join_loop env existing i [] s = (None, s)"
| "join_loop env existing i (link # links) s =
     (case join_iteration env existing i link s of
        (None, s') \<Rightarrow> join_loop env existing (i + 1) links s'
      | (Some e, s') \<Rightarrow> (Some e, s'))"

text \<open>
  The final status after the loop: one edit when the status message is live, and a plain
  send when that edit raised an \<open>Exception\<close>; a failure of the send is logged only.
\<close>

definition final_status :: "env \<Rightarrow> state \<Rightarrow> exc option \<times> state" where
  "final_status env s =
     (if status_live (status_msg env) then
        (case edit_final env of
           None \<Rightarrow> (None, log_event (FinalEdit True) s)
         | Some e \<Rightarrow>
             (let s1 = log_event (FinalEdit False) s
              in if is_Exception e then
                   (case send_final env of
                      None \<Rightarrow> (None, log_event (FinalSend True) s1)
                    | Some e2 \<Rightarrow>
                        (if is_Exception e2 then None else Some e2,
                         log_event (FinalSend False) s1))
                 else (Some e, s1)))
      else (None, s))"

text \<open>The body of the outer \<open>try\<close> block.\<close>

definition join_chats_body :: "env \<Rightarrow> string list \<Rightarrow> state \<Rightarrow> completion \<times> state" where
  "join_chats_body env chat_links s =
     (if chat_links = [] then (Return (ErrorDict EmptyLinkList), s)
      else if \<not> client_present env then (Return (ErrorDict ClientNotInitialized), s)
      else
        (case (if \<not> is_connected env then (connect_result env, log_event Connect s)
               else (None, s)) of
           (Some e, s1) \<Rightarrow> (Raise e, s1)
         | (None, s1) \<Rightarrow>
             (case is_user_authorized env of
                Inl e \<Rightarrow> (Raise e, s1)
              | Inr False \<Rightarrow> (Return (ErrorDict ClientNotAuthorized), s1)
              | Inr True \<Rightarrow>
                  (case get_dialogs env of
                     Inl e \<Rightarrow> (Raise e, s1)
                   | Inr dialogs \<Rightarrow>
                       (let existing = existing_chats dialogs;
                            s2 = count_existing existing chat_links s1;
                            s3 = s2\<lparr>join_count := 0, current_delay := 10,
                                    last_status_update := now_start env\<rparr>
                        in case join_loop env existing 1 chat_links s3 of
                             (Some e, s4) \<Rightarrow> (Raise e, s4)
                           | (None, s4) \<Rightarrow>
                               (case final_status env s4 of
                                  (Some e, s5) \<Rightarrow> (Raise e, s5)
                                | (None, s5) \<Rightarrow> (Fallthrough, s5)))))))"

text \<open>
  The clause \<open>except Exception\<close> of the outer \<open>try\<close> turns an \<open>Exception\<close> into the return of
  an error dictionary. The clause \<open>finally: return results\<close> runs last on every path, and a
  \<open>return\<close> inside \<open>finally\<close> replaces the pending return value or exception.
\<close>

definition except_Exception :: "completion \<Rightarrow> completion" where
  "except_Exception c =
     (case c of
        Raise e \<Rightarrow> if is_Exception e then Return (ErrorDict (Str (exc_str e))) else Raise e
      | _ \<Rightarrow> c)"

definition finally_return :: "completion \<Rightarrow> retval \<Rightarrow> completion" where
  "finally_return pending v = Return v"

text \<open>
  \<open>join_chats\<close> for an account whose attributes are \<open>jc\<close> and \<open>d\<close> at the call: how the call
  ends for the caller, and the final state with the effects.
\<close>

definition join_chats :: "env \<Rightarrow> string list \<Rightarrow> nat \<Rightarrow> rat \<Rightarrow> completion \<times> state" where
  "join_chats env chat_links jc d =
     (case join_chats_body env chat_links (start_state jc d) of
        (c, s) \<Rightarrow> (finally_return (except_Exception c) (ResultsDict (results_of s)), s))"

text \<open>Readers of the effects.\<close>

definition sleeps :: "event list \<Rightarrow> rat list" where
  "sleeps tr = List.map_filter (\<lambda>ev. case ev of Sleep d \<Rightarrow> Some d | _ \<Rightarrow> None) tr"

definition attempts :: "event list \<Rightarrow> request list" where
  "attempts tr = List.map_filter (\<lambda>ev. case ev of Attempt r \<Rightarrow> Some r | _ \<Rightarrow> None) tr"

definition request_for :: "string \<Rightarrow> request" where
  "request_for link =
     (if is_invite link then ImportChatInviteRequest (last_segment link)
      else JoinChannelRequest (last_segment link))"

text \<open>A world in which every call returns, the account is ready and no clock moves.\<close>

definition calm :: "dialog list \<Rightarrow> env" where
  "calm dialogs =
     \<lparr>client_present = True, is_connected = True, connect_result = None,
      is_user_authorized = Inr True, get_dialogs = Inr dialogs,
      status_msg = Some \<lparr>deleted = False\<rparr>, now_start = 0,
      now_progress = (\<lambda>i. 0), now_flood = (\<lambda>i. 0),
      edit_progress = (\<lambda>i. None), edit_flood = (\<lambda>i. None),
      join_result = (\<lambda>i. None), edit_final = None, send_final = None\<rparr>"

section \<open>Vocabulary of the properties\<close>

text \<open>
  A call result is catchable when the call returns or raises an \<open>Exception\<close>. A run is
  uninterrupted when every call of the loop is; it is ready when the checks before the
  loop pass and the dialogs arrive.
\<close>

definition catchable :: "exc option \<Rightarrow> bool" where
  "catchable r = (case r of None \<Rightarrow> True | Some e \<Rightarrow> is_Exception e)"

definition uninterrupted :: "env \<Rightarrow> bool" where
  "uninterrupted env =
     (\<forall>i. catchable (join_result env i) \<and> catchable (edit_progress env i)
          \<and> catchable (edit_flood env i))"

definition ready :: "env \<Rightarrow> bool" where
  "ready env =
     (client_present env \<and> (is_connected env \<or> connect_result env = None)
      \<and> is_user_authorized env = Inr True
      \<and> (case get_dialogs env of Inl e \<Rightarrow> False | Inr dialogs \<Rightarrow> True))"

definition dialogs_of :: "env \<Rightarrow> dialog list" where
  "dialogs_of env = (case get_dialogs env of Inl e \<Rightarrow> [] | Inr dialogs \<Rightarrow> dialogs)"

definition zero_results :: results where
  "zero_results =
     \<lparr>success = 0, failed = 0, failed_chats = [], captcha_required = [],
      captcha_screenshots = [], captcha_solved = [], already_member = 0\<rparr>"

text \<open>
  The part of the state the status updater never writes: the results, \<open>join_count\<close>,
  \<open>current_delay\<close>, the sleeps and the requests. \<open>core_step\<close> is what one pass of the loop
  does to it for a link that is attempted, by the outcome of the request; \<open>core_loop\<close>
  runs it over the list.
\<close>

type_synonym core = "results \<times> nat \<times> rat \<times> rat list \<times> request list"

definition core :: "state \<Rightarrow> core" where
  "core s = (results_of s, join_count s, current_delay s, sleeps (trace s), attempts (trace s))"

definition core_step :: "exc option \<Rightarrow> string \<Rightarrow> core \<Rightarrow> core" where
  "core_step r link c =
     (case c of (res, jc, d, sl, rq) \<Rightarrow>
        (case r of
           None \<Rightarrow>
             (res\<lparr>success := success res + 1\<rparr>, jc + 1, next_delay (jc + 1) d,
              sl @ [next_delay (jc + 1) d], rq @ [request_for link])
         | Some (FloodWaitError w m) \<Rightarrow>
             (res\<lparr>failed_chats := failed_chats res @ [(link, WaitSeconds w)],
                  failed := failed res + 1\<rparr>,
              jc, 10, sl @ [of_int w], rq @ [request_for link])
         | Some (Exception m) \<Rightarrow>
             (if contains (lower m) ''captcha''
              then res\<lparr>captcha_required := captcha_required res @ [link],
                       failed := failed res + 1\<rparr>
              else res\<lparr>failed_chats := failed_chats res @ [(link, Str m)],
                       failed := failed res + 1\<rparr>,
              jc, d, sl, rq @ [request_for link])
         | Some (BaseException m) \<Rightarrow> (res, jc, d, sl, rq @ [request_for link])))"

fun core_loop :: "(nat \<Rightarrow> exc option) \<Rightarrow> string set \<Rightarrow> nat \<Rightarrow> string list \<Rightarrow> core \<Rightarrow> core" where
  "core_loop jr existing i [] c = c"
| "core_loop jr existing i (link # links) c =
     core_loop jr existing (i + 1) links
       (if in_existing existing link then c else core_step (jr i) link c)"

text \<open>
  The delay sequence as the specification words it: 10, then 60, then the capped product
  of the previous delay and 1.1.
\<close>

fun ramp :: "nat \<Rightarrow> rat" where
  "ramp 0 = 10"
| "ramp (Suc 0) = 60"
| "ramp (Suc (Suc k)) = min 600 (float_mul (ramp (Suc k)) float_1_1)"

text \<open>
  The clock readings of the successful in-loop edits, and lists of readings in which each
  one is at least two seconds after the one before, the first after \<open>t0\<close>.
\<close>

definition render_times :: "event list \<Rightarrow> int list" where
  "render_times tr =
     List.map_filter (\<lambda>ev. case ev of StatusEdit t x True \<Rightarrow> Some t | _ \<Rightarrow> None) tr"

fun spaced :: "int \<Rightarrow> int list \<Rightarrow> bool" where
  "spaced t0 [] = True"
| "spaced t0 (t # ts) = (2000000 \<le> t - t0 \<and> spaced t ts)"

text \<open>The events of the final status, and what they are for a world when the loop is through.\<close>

definition final_events :: "event list \<Rightarrow> event list" where
  "final_events tr =
     filter (\<lambda>ev. case ev of FinalEdit b \<Rightarrow> True | FinalSend b \<Rightarrow> True | _ \<Rightarrow> False) tr"

definition expected_final :: "env \<Rightarrow> event list" where
  "expected_final env =
     (if status_live (status_msg env) then
        (case edit_final env of
           None \<Rightarrow> [FinalEdit True]
         | Some e \<Rightarrow>
             if is_Exception e then [FinalEdit False, FinalSend (send_final env = None)]
             else [FinalEdit False])
      else [])"

text \<open>
  The outcome category of a target, read off the code: the position and the link decide
  it. A link the membership test accepts is skipped; otherwise the request is made and its
  result sorts the target as the clauses of the inner \<open>try\<close> do. \<open>Interrupted\<close> is the
  result no clause catches. \<open>failed_entry\<close> is the \<open>failed_chats\<close> entry of a category
  that has one.
\<close>

datatype category =
    AlreadyMember
  | Joined
  | RateLimited int
  | CaptchaRequired
  | PermanentFailure string
  | Interrupted

definition categorize :: "(nat \<Rightarrow> exc option) \<Rightarrow> string set \<Rightarrow> nat \<times> string \<Rightarrow> category" where
  "categorize jr existing t =
     (case t of (i, link) \<Rightarrow>
        if in_existing existing link then AlreadyMember
        else (case jr i of
                None \<Rightarrow> Joined
              | Some (FloodWaitError w m) \<Rightarrow> RateLimited w
              | Some (Exception m) \<Rightarrow>
                  if contains (lower m) ''captcha'' then CaptchaRequired
                  else PermanentFailure m
              | Some (BaseException m) \<Rightarrow> Interrupted))"

definition category_of :: "env \<Rightarrow> nat \<times> string \<Rightarrow> category" where
  "category_of env t = categorize (join_result env) (existing_chats (dialogs_of env)) t"

definition failed_entry :: "category \<Rightarrow> string \<Rightarrow> (string \<times> error_text) option" where
  "failed_entry c link =
     (case c of
        RateLimited w \<Rightarrow> Some (link, WaitSeconds w)
      | PermanentFailure m \<Rightarrow> Some (link, Str m)
      | _ \<Rightarrow> None)"

text \<open>The targets of a run with their positions, counted from 1 as the loop counts them.\<close>

definition targets :: "string list \<Rightarrow> (nat \<times> string) list" where
  "targets chat_links = List.enumerate 1 chat_links"

text \<open>
  The throttle invariant of a state: the successful in-loop edits so far are spaced from
  \<open>t0\<close> on, and \<open>last_status_update\<close> is the last of them, or \<open>t0\<close> before the first.
\<close>

definition throttle_inv :: "int \<Rightarrow> state \<Rightarrow> bool" where
  "throttle_inv t0 s =
     (spaced t0 (render_times (trace s))
      \<and> last_status_update s = last (t0 # render_times (trace s)))"

section \<open>Concrete worlds\<close>

definition three_links :: "string list" where
  "three_links = [''https://t.me/a'', ''https://t.me/b'', ''https://t.me/c'']"

definition four_links :: "string list" where
  "four_links = [''https://t.me/a'', ''https://t.me/b'', ''https://t.me/c'', ''https://t.me/d'']"

definition five_links :: "string list" where
  "five_links =
     [''https://t.me/a'', ''https://t.me/b'', ''https://t.me/c'', ''https://t.me/d'',
      ''https://t.me/e'']"

text \<open>
  The account is in the channel \<open>D\<close>. The first request meets a captcha, the second another
  error, the third a flood wait of 30 seconds; the later ones succeed.
\<close>

definition mixed_world :: env where
  "mixed_world =
     (calm [\<lparr>is_channel = True, username = Some ''D''\<rparr>])\<lparr>join_result :=
        (\<lambda>i. if i = 1 then Some (Exception ''CAPTCHA required'')
              else if i = 2 then Some (Exception ''No user has b as username'')
              else if i = 3 then Some (FloodWaitError 30 ''A wait of 30 seconds is required'')
              else None)\<rparr>"

text \<open>The second request is answered with a flood wait of 120 seconds.\<close>

definition flood_world :: env where
  "flood_world =
     (calm [])\<lparr>join_result :=
        (\<lambda>i. if i = 2 then Some (FloodWaitError 120 ''A wait of 120 seconds is required'')
              else None)\<rparr>"

definition unauthorized_world :: env where
  "unauthorized_world = (calm [])\<lparr>is_user_authorized := Inr False\<rparr>"

text \<open>Every request raises an exception that is not an \<open>Exception\<close>.\<close>

definition cancelled_world :: env where
  "cancelled_world = (calm [])\<lparr>join_result := (\<lambda>i. Some (BaseException ''CancelledError''))\<rparr>"

text \<open>The account is in one public channel, whose username is \<open>AbC123\<close>.\<close>

definition member_world :: env where
  "member_world = calm [\<lparr>is_channel = True, username = Some ''AbC123''\<rparr>]"

definition no_status_world :: env where
  "no_status_world = (calm [])\<lparr>status_msg := None\<rparr>"

text \<open>Three seconds pass between the progress updates, and the first edit fails.\<close>

definition ticking_world :: env where
  "ticking_world =
     (calm [])\<lparr>now_progress := (\<lambda>i. int i * 3000000),
               edit_progress := (\<lambda>i. if i = 1 then Some (Exception ''message not modified'')
                                       else None)\<rparr>"

definition fresh_manager :: session_manager where
  "fresh_manager =
     \<lparr>locks = Map.empty, lock_files = Map.empty, flocked = {}, open_files = {}, disk = {}\<rparr>"

definition quiet_os :: os_outcome where
  "quiet_os = \<lparr>unlock_raises = False, close_raises = False, remove_raises = False\<rparr>"

section \<open>The link normalizer\<close>

lemma first_seen_snoc:
  "first_seen (ys @ [x]) = (if x \<in> set ys then first_seen ys else first_seen ys @ [x])"
  by (simp add: first_seen_def)

lemma set_first_seen: "set (first_seen xs) = set xs"
  by (simp add: first_seen_def)

lemma distinct_first_seen: "distinct (first_seen xs)"
  by (simp add: first_seen_def)

lemma map_filter_snoc:
  "List.map_filter f (xs @ [x]) =
     List.map_filter f xs @ (case f x of None \<Rightarrow> [] | Some y \<Rightarrow> [y])"
  by (simp add: List.map_filter_def split: option.splits)

text \<open>The loop keeps \<open>seen_links\<close> equal to the set of \<open>links\<close>.\<close>

lemma extract_loop:
  "foldl process_line ([], {}) raws =
     (first_seen (List.map_filter line_link raws), set (List.map_filter line_link raws))"
proof (induction raws rule: rev_induct)
  case Nil
  show ?case by (simp add: first_seen_def List.map_filter_def)
next
  case (snoc raw raws)
  show ?case
  proof (cases "line_link raw")
    case None
    with snoc show ?thesis by (simp add: process_line_def map_filter_snoc)
  next
    case (Some link)
    with snoc show ?thesis
      by (auto simp: process_line_def map_filter_snoc add_link_def first_seen_snoc
          set_first_seen)
  qed
qed

text \<open>
  C4, as the code has it. The output of \<open>extract_chat_links\<close> holds no link string twice
  and is the list of the lines' links in first-seen order. Links are compared as rendered,
  so two spellings of one username that differ in case are two entries.
\<close>

theorem extract_chat_links_exact_dedup:
  "distinct (extract_chat_links text)
   \<and> extract_chat_links text = first_seen (candidate_links text)"
  by (simp add: extract_chat_links_def candidate_links_def extract_loop distinct_first_seen)

text \<open>
  C4, as stated, fails on the lines \<open>@Foo\<close>, \<open>foo\<close>, \<open>https://t.me/FOO\<close>: three links come
  out, and their keys of kind and lower-cased identifier are not distinct.
\<close>

theorem extract_chat_links_case_counterexample:
  "extract_chat_links ''@Foo\<newline>foo\<newline>https://t.me/FOO''
     = [''https://t.me/Foo'', ''https://t.me/foo'', ''https://t.me/FOO'']
   \<and> \<not> distinct (map spec_key (extract_chat_links ''@Foo\<newline>foo\<newline>https://t.me/FOO''))"
  by code_simp

text \<open>
  First-seen order, link by link; and every rendered invite link is a fixed point of the
  normalizer.
\<close>

lemma first_seen_Cons: "first_seen (x # xs) = x # filter (\<lambda>y. y \<noteq> x) (first_seen xs)"
proof -
  have "remdups (ys @ [x]) = filter (\<lambda>y. y \<noteq> x) (remdups ys) @ [x]" for ys
    by (induction ys) auto
  then show ?thesis by (simp add: first_seen_def rev_filter)
qed

lemma hash_char_not_space: "is_hash_char c \<Longrightarrow> \<not> is_space c"
  by (auto simp: is_hash_char_def is_space_def Let_def)

lemma strip_id:
  assumes "s \<noteq> []" and "\<not> is_space (hd s)" and "\<not> is_space (last s)"
  shows "strip s = s"
proof -
  from assms(1,2) have "dropWhile is_space s = s" by (cases s) simp_all
  moreover from assms(1,3) have "dropWhile is_space (rev s) = rev s"
    by (cases "rev s") (simp_all add: last_rev [symmetric] hd_rev)
  ultimately show ?thesis by (simp add: strip_def)
qed

lemma line_link_invite:
  assumes "h \<noteq> []" and "\<forall>c\<in>set h. is_hash_char c"
  shows "line_link (''https://t.me/joinchat/'' @ h) = Some (''https://t.me/joinchat/'' @ h)"
proof -
  from assms have "\<not> is_space (last h)" by (simp add: hash_char_not_space)
  with assms(1) have s: "strip (''https://t.me/joinchat/'' @ h) = ''https://t.me/joinchat/'' @ h"
    by (intro strip_id) (simp_all add: is_space_def)
  from assms(2) have t: "takeWhile is_hash_char h = h" by (simp add: takeWhile_eq_all_conv)
  have c: "contains (''https://t.me/joinchat/'' @ h) ''joinchat''"
    by (simp add: startswith_def)
  have m: "search_invite (''https://t.me/joinchat/'' @ h) = Some h"
    using assms(1)
    by (simp add: t match_invite_at_def match_host_def strip_prefix_def startswith_def
        orelse_def Let_def)
  show ?thesis unfolding line_link_def s using c m by (simp add: Let_def)
qed

text \<open>
  C6. The lines \<open>https://t.me/joinchat/AbC123\<close> and \<open>t.me/+AbC123\<close> both give the one link
  \<open>https://t.me/joinchat/AbC123\<close>, which the join loop reads as an invite with the hash
  \<open>AbC123\<close>, and normalizing that link again gives the same one-element list.
\<close>

theorem invite_link_normal_form:
  "extract_chat_links ''https://t.me/joinchat/AbC123'' = [''https://t.me/joinchat/AbC123'']
   \<and> extract_chat_links ''t.me/+AbC123'' = [''https://t.me/joinchat/AbC123'']
   \<and> is_invite ''https://t.me/joinchat/AbC123''
   \<and> last_segment ''https://t.me/joinchat/AbC123'' = ''AbC123''
   \<and> request_for ''https://t.me/joinchat/AbC123'' = ImportChatInviteRequest ''AbC123''
   \<and> concat (map extract_chat_links (extract_chat_links ''t.me/+AbC123''))
       = extract_chat_links ''t.me/+AbC123''"
  by code_simp

section \<open>The session lock\<close>

lemma release_lock_never_raises: "fst (release_lock os n m) = False"
  by (simp add: release_lock_def split: prod.splits)

lemma release_unheld: "locks m n = None \<Longrightarrow> release_lock os n m = (False, m)"
  by (simp add: release_lock_def release_body_def)

lemma release_drops_entry: "locks (snd (release_lock os n m)) n = None"
  by (auto simp: release_lock_def release_body_def Let_def split: option.splits prod.splits)

text \<open>
  C10. No exception leaves \<open>release_lock\<close>; for a session name that is not in the lock
  table the call changes nothing; and a second release right after a first, whatever the
  system calls do, gives the result of the first alone.
\<close>

theorem release_lock_idempotent:
  "fst (release_lock os n m) = False
   \<and> (n \<notin> dom (locks m) \<longrightarrow> release_lock os n m = (False, m))
   \<and> release_lock os' n (snd (release_lock os n m)) = release_lock os n m"
proof (intro conjI impI)
  show "fst (release_lock os n m) = False" by (rule release_lock_never_raises)
  show "release_lock os n m = (False, m)" if "n \<notin> dom (locks m)"
    using that by (simp add: release_unheld domIff)
  have "release_lock os' n (snd (release_lock os n m)) = (False, snd (release_lock os n m))"
    by (rule release_unheld) (rule release_drops_entry)
  also have "\<dots> = release_lock os n m"
    by (simp add: prod_eq_iff release_lock_never_raises)
  finally show "release_lock os' n (snd (release_lock os n m)) = release_lock os n m" .
qed

theorem release_lock_idempotent_witness:
  "''user_1'' \<notin> dom (locks fresh_manager)
   \<and> release_lock quiet_os ''user_1'' fresh_manager = (False, fresh_manager)"
  using release_lock_idempotent [of quiet_os "''user_1''" fresh_manager quiet_os]
  by (simp add: fresh_manager_def)

section \<open>The join loop and its core\<close>

lemma sleeps_append [simp]: "sleeps (xs @ ys) = sleeps xs @ sleeps ys"
  by (simp add: sleeps_def List.map_filter_def)

lemma attempts_append [simp]: "attempts (xs @ ys) = attempts xs @ attempts ys"
  by (simp add: attempts_def List.map_filter_def)

lemma sleeps_simps [simp]:
  "sleeps [] = []" "sleeps (Sleep d # tr) = d # sleeps tr" "sleeps (Attempt r # tr) = sleeps tr"
  "sleeps (StatusEdit t x b # tr) = sleeps tr" "sleeps (Connect # tr) = sleeps tr"
  "sleeps (FinalEdit b # tr) = sleeps tr" "sleeps (FinalSend b # tr) = sleeps tr"
  by (simp_all add: sleeps_def List.map_filter_def)

lemma attempts_simps [simp]:
  "attempts [] = []" "attempts (Sleep d # tr) = attempts tr"
  "attempts (Attempt r # tr) = r # attempts tr"
  "attempts (StatusEdit t x b # tr) = attempts tr" "attempts (Connect # tr) = attempts tr"
  "attempts (FinalEdit b # tr) = attempts tr" "attempts (FinalSend b # tr) = attempts tr"
  by (simp_all add: attempts_def List.map_filter_def)

lemma update_status_core:
  "update_status env t r x s = (res, s') \<Longrightarrow> core s' = core s"
  by (auto simp: update_status_def core_def results_of_def log_event_def
      split: if_splits option.splits)

lemma update_status_catchable:
  "catchable r \<Longrightarrow> fst (update_status env t r x s) = None"
  by (auto simp: update_status_def catchable_def split: option.splits)


lemma join_attempt_core:
  "join_attempt env i link s = (join_result env i, snd (join_attempt env i link s))"
  "last_status_update (snd (join_attempt env i link s)) = last_status_update s"
  "core (snd (join_attempt env i link s))
     = (case join_result env i of
          None \<Rightarrow> core_step None link (core s)
        | Some e \<Rightarrow> core_step (Some (BaseException [])) link (core s))"
  by (simp_all add: join_attempt_def core_def core_step_def results_of_def log_event_def
      request_for_def Let_def split: option.split)

lemma join_iteration_core:
  assumes "\<not> in_existing existing link"
    and "catchable (edit_progress env i)" and "catchable (edit_flood env i)"
    and "catchable (join_result env i)"
  shows "\<exists>s'. join_iteration env existing i link s = (None, s')
              \<and> core s' = core_step (join_result env i) link (core s)"
proof -
  obtain s1 where u: "update_status env (now_progress env i) (edit_progress env i) (Progress link) s = (None, s1)"
    using update_status_catchable [OF assms(2)] by (metis prod.collapse)
  have c1: "core s1 = core s" using update_status_core [OF u] .
  define s2 where "s2 = snd (join_attempt env i link s1)"
  have a: "join_attempt env i link s1 = (join_result env i, s2)"
    unfolding s2_def by (rule join_attempt_core(1))
  have ac: "core s2 = (case join_result env i of
          None \<Rightarrow> core_step None link (core s1)
        | Some e \<Rightarrow> core_step (Some (BaseException [])) link (core s1))"
    unfolding s2_def by (rule join_attempt_core(3))
  show ?thesis
  proof (cases "join_result env i")
    case None
    with u a ac c1 assms(1) show ?thesis by (simp add: join_iteration_def)
  next
    case (Some e)
    show ?thesis
    proof (cases e)
      case (FloodWaitError w m)
      obtain s3 where f: "update_status env (now_flood env i) (edit_flood env i) (FloodNotice w)
          (s2\<lparr>failed_chats := failed_chats s2 @ [(link, WaitSeconds w)], failed := failed s2 + 1\<rparr>) = (None, s3)"
        using update_status_catchable [OF assms(3)] by (metis prod.collapse)
      have c3: "core s3 = core (s2\<lparr>failed_chats := failed_chats s2 @ [(link, WaitSeconds w)], failed := failed s2 + 1\<rparr>)"
        using update_status_core [OF f] .
      have it: "join_iteration env existing i link s
                  = (None, (log_event (Sleep (of_int w)) s3)\<lparr>current_delay := 10\<rparr>)"
        using u a ac f assms(1) Some FloodWaitError
        by (simp add: join_iteration_def on_flood_wait_def)
      have "core ((log_event (Sleep (of_int w)) s3)\<lparr>current_delay := 10\<rparr>)
              = core_step (join_result env i) link (core s)"
        using c3 ac c1 Some FloodWaitError
        by (simp add: core_def core_step_def log_event_def results_of_def)
      with it show ?thesis by simp
    next
      case (Exception m)
      have it: "join_iteration env existing i link s = (None, on_exception link (Exception m) s2)"
        using u a ac assms(1) Some Exception by (simp add: join_iteration_def)
      have "core (on_exception link (Exception m) s2) = core_step (join_result env i) link (core s)"
        using ac c1 Some Exception
        by (simp add: core_def core_step_def on_exception_def results_of_def)
      with it show ?thesis by simp
    next
      case (BaseException m)
      with Some assms(4) show ?thesis by (simp add: catchable_def)
    qed
  qed
qed


lemma join_loop_core:
  assumes "uninterrupted env"
  shows "\<exists>s'. join_loop env existing i links s = (None, s')
              \<and> core s' = core_loop (join_result env) existing i links (core s)"
proof (induction links arbitrary: i s)
  case Nil
  show ?case by simp
next
  case (Cons link links)
  show ?case
  proof (cases "in_existing existing link")
    case True
    then have "join_iteration env existing i link s = (None, s)"
      by (simp add: join_iteration_def)
    with True Cons [of "i + 1" s] show ?thesis by simp
  next
    case False
    from assms have "catchable (edit_progress env i)" "catchable (edit_flood env i)"
      "catchable (join_result env i)" by (simp_all add: uninterrupted_def)
    from join_iteration_core [OF False this]
    obtain s1 where it: "join_iteration env existing i link s = (None, s1)"
      and c: "core s1 = core_step (join_result env i) link (core s)" by blast
    with False Cons [of "i + 1" s1] show ?thesis by simp
  qed
qed

lemma final_status_core: "core (snd (final_status env s)) = core s"
  by (simp add: final_status_def core_def results_of_def log_event_def Let_def
      split: option.split)

lemma count_existing_fields:
  "count_existing existing links s
     = s\<lparr>already_member := already_member s + length (filter (in_existing existing) links)\<rparr>"
  by (induction links arbitrary: s) simp_all

lemma join_chats_ready:
  assumes "ready env" and "uninterrupted env" and "chat_links \<noteq> []"
  shows "core (snd (join_chats env chat_links jc d))
           = core_loop (join_result env) (existing_chats (dialogs_of env)) 1 chat_links
               (zero_results\<lparr>already_member :=
                   length (filter (in_existing (existing_chats (dialogs_of env))) chat_links)\<rparr>,
                0, 10, [], [])"
proof -
  from assms(1) obtain dialogs where d: "get_dialogs env = Inr dialogs"
    by (auto simp: ready_def split: sum.splits)
  define s1 where "s1 = (if is_connected env then start_state jc d
                          else log_event Connect (start_state jc d))"
  define s3 where "s3 = (count_existing (existing_chats dialogs) chat_links s1)
            \<lparr>join_count := 0, current_delay := 10, last_status_update := now_start env\<rparr>"
  from join_loop_core [OF assms(2), of "existing_chats dialogs" 1 chat_links s3]
  obtain s4 where l: "join_loop env (existing_chats dialogs) 1 chat_links s3 = (None, s4)"
    and c4: "core s4 = core_loop (join_result env) (existing_chats dialogs) 1 chat_links (core s3)"
    by blast
  have c3: "core s3 = (zero_results\<lparr>already_member :=
                   length (filter (in_existing (existing_chats dialogs)) chat_links)\<rparr>,
                0, 10, [], [])"
    by (simp add: s3_def s1_def count_existing_fields core_def results_of_def start_state_def
        zero_results_def log_event_def)
  have "snd (join_chats env chat_links jc d) = snd (final_status env s4)"
    using assms(1,3) d l
    by (auto simp: join_chats_def join_chats_body_def ready_def s3_def s1_def Let_def
        split: prod.splits option.splits)
  with c4 c3 d show ?thesis by (simp add: final_status_core dialogs_of_def)
qed


section \<open>Counters\<close>

lemma core_step_counters:
  assumes "catchable r"
  shows "success (fst (core_step r link c)) + failed (fst (core_step r link c))
           = success (fst c) + failed (fst c) + 1"
    and "already_member (fst (core_step r link c)) = already_member (fst c)"
    and "failed (fst (core_step r link c)) + length (failed_chats (fst c))
             + length (captcha_required (fst c))
           = failed (fst c) + length (failed_chats (fst (core_step r link c)))
             + length (captcha_required (fst (core_step r link c)))"
  using assms
  by (auto simp: core_step_def catchable_def split: prod.splits option.splits exc.splits)

lemma core_loop_counters:
  assumes "\<forall>i. catchable (jr i)"
  shows "success (fst (core_loop jr existing i links c))
           + failed (fst (core_loop jr existing i links c))
         = success (fst c) + failed (fst c)
           + length (filter (\<lambda>l. \<not> in_existing existing l) links)
         \<and> already_member (fst (core_loop jr existing i links c)) = already_member (fst c)
         \<and> failed (fst (core_loop jr existing i links c)) + length (failed_chats (fst c))
             + length (captcha_required (fst c))
           = failed (fst c) + length (failed_chats (fst (core_loop jr existing i links c)))
             + length (captcha_required (fst (core_loop jr existing i links c)))"
proof (induction links arbitrary: i c)
  case Nil
  show ?case by simp
next
  case (Cons link links)
  from assms have r: "catchable (jr i)" by simp
  show ?case
  proof (cases "in_existing existing link")
    case True
    with Cons [of "i + 1" c] show ?thesis by simp
  next
    case False
    with Cons [of "i + 1" "core_step (jr i) link c"] core_step_counters [OF r, of link c]
    show ?thesis by simp
  qed
qed

lemma join_chats_returns_results:
  "fst (join_chats env chat_links jc d)
     = Return (ResultsDict (results_of (snd (join_chats env chat_links jc d))))"
  by (simp add: join_chats_def finally_return_def split: prod.splits)

lemma join_chats_empty:
  "join_chats env [] jc d = (Return (ResultsDict zero_results), start_state jc d)"
  by (simp add: join_chats_def join_chats_body_def finally_return_def results_of_def
      start_state_def zero_results_def)

text \<open>What the loop leaves in the results, target by target.\<close>

lemma core_step_results:
  assumes "catchable (jr i)" and "\<not> in_existing existing link"
  shows "success (fst (core_step (jr i) link c))
           = success (fst c) + (if categorize jr existing (i, link) = Joined then 1 else 0)"
    and "failed_chats (fst (core_step (jr i) link c))
           = failed_chats (fst c)
             @ (case failed_entry (categorize jr existing (i, link)) link of
                  None \<Rightarrow> [] | Some x \<Rightarrow> [x])"
    and "captcha_required (fst (core_step (jr i) link c))
           = captcha_required (fst c)
             @ (if categorize jr existing (i, link) = CaptchaRequired then [link] else [])"
    and "categorize jr existing (i, link) \<noteq> Interrupted"
  using assms
  by (auto simp: core_step_def catchable_def categorize_def failed_entry_def
      split: prod.splits option.splits exc.splits)

lemma core_loop_results:
  assumes "\<forall>i. catchable (jr i)"
  shows "success (fst (core_loop jr existing i links c))
           = success (fst c)
             + length (filter (\<lambda>t. categorize jr existing t = Joined) (List.enumerate i links))
       \<and> failed_chats (fst (core_loop jr existing i links c))
           = failed_chats (fst c)
             @ List.map_filter (\<lambda>t. failed_entry (categorize jr existing t) (snd t))
                 (List.enumerate i links)
       \<and> captcha_required (fst (core_loop jr existing i links c))
           = captcha_required (fst c)
             @ map snd (filter (\<lambda>t. categorize jr existing t = CaptchaRequired)
                 (List.enumerate i links))
       \<and> filter (\<lambda>t. categorize jr existing t = Interrupted) (List.enumerate i links) = []"
proof (induction links arbitrary: i c)
  case Nil
  show ?case by simp
next
  case (Cons link links)
  from assms have r: "catchable (jr i)" by simp
  show ?case
  proof (cases "in_existing existing link")
    case True
    then have "categorize jr existing (i, link) = AlreadyMember" by (simp add: categorize_def)
    with True Cons [of "Suc i" c] show ?thesis
      by (simp add: failed_entry_def)
  next
    case False
    note st = core_step_results [where jr = jr and i = i and existing = existing
        and link = link, OF r False]
    from False Cons [of "Suc i" "core_step (jr i) link c"] st
    show ?thesis
      by (auto split: option.splits)
  qed
qed

lemma already_member_targets:
  "length (filter (\<lambda>t. categorize jr existing t = AlreadyMember) (List.enumerate i links))
     = length (filter (in_existing existing) links)"
proof (induction links arbitrary: i)
  case Nil
  show ?case by simp
next
  case (Cons link links)
  have "categorize jr existing (i, link) = AlreadyMember \<longleftrightarrow> in_existing existing link"
    by (auto simp: categorize_def split: option.splits exc.splits)
  with Cons [of "Suc i"] show ?case by simp
qed


text \<open>
  C2, as the code has it. When the list is empty, or the checks before the loop pass, and
  no call of the loop raises an exception that is not an \<open>Exception\<close>, the call returns the
  results with \<open>success + failed + already_member\<close> equal to the number of links, and every
  target is accounted for by its own category: \<open>already_member\<close> and \<open>success\<close> count the
  skipped and the joined targets, \<open>failed_chats\<close> holds, in order, the link and message of
  each rate-limited and each permanently failed target, \<open>captcha_required\<close> holds, in order,
  the link of each captcha target, \<open>failed\<close> is the number of those entries together, and
  no target is in a sixth category.
\<close>

theorem counters_cover_every_target:
  assumes "chat_links = [] \<or> ready env" and "uninterrupted env"
  shows "\<exists>r. fst (join_chats env chat_links jc d) = Return (ResultsDict r)
           \<and> success r + failed r + already_member r = length chat_links
           \<and> failed r = length (failed_chats r) + length (captcha_required r)
           \<and> already_member r
               = length (filter (\<lambda>t. category_of env t = AlreadyMember) (targets chat_links))
           \<and> success r
               = length (filter (\<lambda>t. category_of env t = Joined) (targets chat_links))
           \<and> failed_chats r
               = List.map_filter (\<lambda>t. failed_entry (category_of env t) (snd t))
                   (targets chat_links)
           \<and> captcha_required r
               = map snd (filter (\<lambda>t. category_of env t = CaptchaRequired)
                   (targets chat_links))
           \<and> filter (\<lambda>t. category_of env t = Interrupted) (targets chat_links) = []"
proof (cases "chat_links = []")
  case True
  then show ?thesis by (simp add: join_chats_empty zero_results_def targets_def)
next
  case False
  with assms(1) have rdy: "ready env" by simp
  define ex where "ex = existing_chats (dialogs_of env)"
  define c0 :: core where
    "c0 = (zero_results\<lparr>already_member := length (filter (in_existing ex) chat_links)\<rparr>,
           0, 10, [], [])"
  define r where "r = results_of (snd (join_chats env chat_links jc d))"
  have cr: "r = fst (core_loop (join_result env) ex 1 chat_links c0)"
  proof -
    have "core (snd (join_chats env chat_links jc d))
            = core_loop (join_result env) ex 1 chat_links c0"
      unfolding ex_def c0_def by (rule join_chats_ready [OF rdy assms(2) False])
    then have "fst (core (snd (join_chats env chat_links jc d)))
            = fst (core_loop (join_result env) ex 1 chat_links c0)"
      by (rule arg_cong)
    then show ?thesis by (simp add: core_def r_def)
  qed
  from assms(2) have ca: "\<forall>i. catchable (join_result env i)" by (simp add: uninterrupted_def)
  have cat: "category_of env = categorize (join_result env) ex"
    by (rule ext) (simp add: category_of_def ex_def)
  from core_loop_counters [OF ca, of ex 1 chat_links c0]
  have "success r + failed r = length (filter (\<lambda>l. \<not> in_existing ex l) chat_links)"
    and am: "already_member r = length (filter (in_existing ex) chat_links)"
    and fl: "failed r = length (failed_chats r) + length (captcha_required r)"
    by (simp_all add: cr c0_def zero_results_def)
  then have total: "success r + failed r + already_member r = length chat_links"
    using sum_length_filter_compl [of "in_existing ex" chat_links] by simp
  from core_loop_results [OF ca, of ex 1 chat_links c0]
  have "success r = length (filter (\<lambda>t. category_of env t = Joined) (targets chat_links))"
    and "failed_chats r = List.map_filter (\<lambda>t. failed_entry (category_of env t) (snd t))
                   (targets chat_links)"
    and "captcha_required r = map snd (filter (\<lambda>t. category_of env t = CaptchaRequired)
                   (targets chat_links))"
    and "filter (\<lambda>t. category_of env t = Interrupted) (targets chat_links) = []"
    by (simp_all add: cr c0_def zero_results_def cat targets_def)
  moreover have "already_member r
      = length (filter (\<lambda>t. category_of env t = AlreadyMember) (targets chat_links))"
    using am by (simp add: cat targets_def already_member_targets)
  ultimately show ?thesis
    using total fl join_chats_returns_results [of env chat_links jc d]
    unfolding r_def by blast
qed

lemma ready_flood_world: "ready flood_world"
  by (simp add: ready_def flood_world_def calm_def)

lemma uninterrupted_flood_world: "uninterrupted flood_world"
  by (simp add: uninterrupted_def flood_world_def calm_def catchable_def)

lemma ready_mixed_world: "ready mixed_world"
  by (simp add: ready_def mixed_world_def calm_def)

lemma uninterrupted_mixed_world: "uninterrupted mixed_world"
  by (simp add: uninterrupted_def mixed_world_def calm_def catchable_def)

theorem counters_cover_every_target_witness:
  "(five_links = [] \<or> ready mixed_world) \<and> uninterrupted mixed_world
   \<and> (\<exists>r. fst (join_chats mixed_world five_links 0 10) = Return (ResultsDict r)
           \<and> success r + failed r + already_member r = 5
           \<and> already_member r = 1
           \<and> success r = 1
           \<and> failed r = 3
           \<and> failed_chats r
               = [(''https://t.me/b'', Str ''No user has b as username''),
                  (''https://t.me/c'', WaitSeconds 30)]
           \<and> captcha_required r = [''https://t.me/a''])"
proof -
  have h1: "five_links = [] \<or> ready mixed_world" by (simp add: ready_mixed_world)
  have n: "length five_links = 5" by (simp add: five_links_def)
  have e: "length (filter (\<lambda>t. category_of mixed_world t = AlreadyMember)
             (targets five_links)) = 1"
    "length (filter (\<lambda>t. category_of mixed_world t = Joined) (targets five_links)) = 1"
    "List.map_filter (\<lambda>t. failed_entry (category_of mixed_world t) (snd t))
         (targets five_links)
       = [(''https://t.me/b'', Str ''No user has b as username''),
          (''https://t.me/c'', WaitSeconds 30)]"
    "map snd (filter (\<lambda>t. category_of mixed_world t = CaptchaRequired) (targets five_links))
       = [''https://t.me/a'']"
    by code_simp+
  from counters_cover_every_target [OF h1 uninterrupted_mixed_world, of 0 10]
  obtain r where r: "fst (join_chats mixed_world five_links 0 10) = Return (ResultsDict r)"
    "success r + failed r + already_member r = length five_links"
    "failed r = length (failed_chats r) + length (captcha_required r)"
    "already_member r = length (filter (\<lambda>t. category_of mixed_world t = AlreadyMember)
        (targets five_links))"
    "success r = length (filter (\<lambda>t. category_of mixed_world t = Joined) (targets five_links))"
    "failed_chats r = List.map_filter (\<lambda>t. failed_entry (category_of mixed_world t) (snd t))
        (targets five_links)"
    "captcha_required r = map snd (filter (\<lambda>t. category_of mixed_world t = CaptchaRequired)
        (targets five_links))"
    by blast
  from r e n have "success r + failed r + already_member r = 5" "already_member r = 1"
    "success r = 1" "failed r = 3"
    "failed_chats r = [(''https://t.me/b'', Str ''No user has b as username''),
                  (''https://t.me/c'', WaitSeconds 30)]"
    "captcha_required r = [''https://t.me/a'']"
    by simp_all
  with r(1) h1 uninterrupted_mixed_world show ?thesis by blast
qed

text \<open>
  C2, as stated for every run, fails when the run stops early: with a client that is not
  authorized, and with a request that raises an exception that is not an \<open>Exception\<close>, the
  call returns all counters zero for three links.
\<close>

theorem counters_after_abort_counterexample:
  "fst (join_chats unauthorized_world three_links 0 10) = Return (ResultsDict zero_results)
   \<and> fst (join_chats cancelled_world three_links 0 10) = Return (ResultsDict zero_results)
   \<and> success zero_results + failed zero_results + already_member zero_results
       \<noteq> length three_links"
  by code_simp

section \<open>Flood waits, the membership filter and the return value\<close>

lemma core_loop_attempts:
  "snd (snd (snd (snd (core_loop jr existing i links c))))
     = snd (snd (snd (snd c))) @ map request_for (filter (\<lambda>l. \<not> in_existing existing l) links)"
proof (induction links arbitrary: i c)
  case Nil
  show ?case by simp
next
  case (Cons link links)
  have "snd (snd (snd (snd (core_step (jr i) link c))))
          = snd (snd (snd (snd c))) @ [request_for link]"
    by (simp add: core_step_def split: prod.splits option.splits exc.splits)
  with Cons [of "i + 1"] show ?case by simp
qed

lemma join_loop_attempts:
  assumes "uninterrupted env"
  shows "attempts (trace (snd (join_loop env existing i links s)))
           = attempts (trace s)
             @ map request_for (filter (\<lambda>l. \<not> in_existing existing l) links)"
proof -
  from join_loop_core [OF assms, of existing i links s]
  obtain s' where l: "join_loop env existing i links s = (None, s')"
    and c: "core s' = core_loop (join_result env) existing i links (core s)" by blast
  from c have "snd (snd (snd (snd (core s'))))
      = snd (snd (snd (snd (core_loop (join_result env) existing i links (core s)))))"
    by simp
  then show ?thesis using l by (simp add: core_loop_attempts) (simp add: core_def)
qed

text \<open>
  C3, as the code has it. When the request for a link that is not skipped raises
  \<open>FloodWaitError\<close> with \<open>seconds = w\<close>, the pass ends without leaving the loop and the loop
  goes on with the rest of the list. The link is requested once and not again, the only
  sleep of the pass is \<open>w\<close> seconds and \<open>current_delay\<close> is 10 afterwards. The outcome
  is recorded as a failure: \<open>failed\<close> grows by one and the link is appended to
  \<open>failed_chats\<close> with the wait message. In an uninterrupted run every link
  of the rest that is not skipped is then requested, in order.
\<close>

theorem flood_wait_is_counted_and_run_goes_on:
  assumes "\<not> in_existing existing link"
    and "join_result env i = Some (FloodWaitError w m)"
    and "catchable (edit_progress env i)" and "catchable (edit_flood env i)"
  shows "\<exists>s'. join_iteration env existing i link s = (None, s')
           \<and> join_loop env existing i (link # rest) s = join_loop env existing (i + 1) rest s'
           \<and> failed s' = failed s + 1
           \<and> failed_chats s' = failed_chats s @ [(link, WaitSeconds w)]
           \<and> success s' = success s
           \<and> captcha_required s' = captcha_required s
           \<and> sleeps (trace s') = sleeps (trace s) @ [of_int w]
           \<and> attempts (trace s') = attempts (trace s) @ [request_for link]
           \<and> current_delay s' = 10
           \<and> (uninterrupted env \<longrightarrow>
                attempts (trace (snd (join_loop env existing (i + 1) rest s')))
                  = attempts (trace s') @ map request_for
                      (filter (\<lambda>l. \<not> in_existing existing l) rest))"
proof -
  have "catchable (join_result env i)" using assms(2) by (simp add: catchable_def)
  from join_iteration_core [OF assms(1,3,4) this, of s]
  obtain s' where it: "join_iteration env existing i link s = (None, s')"
    and c: "core s' = core_step (join_result env i) link (core s)" by blast
  from c assms(2) have
    "results_of s' = (results_of s)\<lparr>failed_chats := failed_chats s @ [(link, WaitSeconds w)],
                                     failed := failed s + 1\<rparr>"
    "join_count s' = join_count s" "current_delay s' = 10"
    "sleeps (trace s') = sleeps (trace s) @ [of_int w]"
    "attempts (trace s') = attempts (trace s) @ [request_for link]"
    by (simp_all add: core_def core_step_def results_of_def)
  moreover from this(1) have "failed s' = failed s + 1"
    "failed_chats s' = failed_chats s @ [(link, WaitSeconds w)]"
    "success s' = success s" "captcha_required s' = captcha_required s"
    by (simp_all add: results_of_def)
  moreover have "join_loop env existing i (link # rest) s
                   = join_loop env existing (i + 1) rest s'"
    using it by simp
  ultimately show ?thesis using it join_loop_attempts [of env existing "i + 1" rest s']
    by auto
qed

lemma flood_world_second: "join_result flood_world 2 = Some (FloodWaitError 120 ''A wait of 120 seconds is required'')"
  by (simp add: flood_world_def calm_def)

theorem flood_wait_is_counted_and_run_goes_on_witness:
  "\<not> in_existing {} ''https://t.me/b''
   \<and> join_result flood_world 2 = Some (FloodWaitError 120 ''A wait of 120 seconds is required'')
   \<and> catchable (edit_progress flood_world 2) \<and> catchable (edit_flood flood_world 2)
   \<and> uninterrupted flood_world
   \<and> (\<exists>s'. join_iteration flood_world {} 2 ''https://t.me/b'' (start_state 1 10) = (None, s')
           \<and> failed s' = 1
           \<and> failed_chats s' = [(''https://t.me/b'', WaitSeconds 120)]
           \<and> success s' = 0
           \<and> sleeps (trace s') = [120]
           \<and> attempts (trace s') = [JoinChannelRequest ''b'']
           \<and> attempts (trace (snd (join_loop flood_world {} 3 [''https://t.me/c''] s')))
                = [JoinChannelRequest ''b'', JoinChannelRequest ''c''])"
proof -
  have h1: "\<not> in_existing {} ''https://t.me/b''" by (simp add: in_existing_def)
  have h3: "catchable (edit_progress flood_world 2)" "catchable (edit_flood flood_world 2)"
    by (simp_all add: flood_world_def calm_def catchable_def)
  have r: "request_for ''https://t.me/b'' = JoinChannelRequest ''b''"
    "request_for ''https://t.me/c'' = JoinChannelRequest ''c''" by code_simp+
  from flood_wait_is_counted_and_run_goes_on [OF h1 flood_world_second h3,
      of "start_state 1 10" "[''https://t.me/c'']"]
  show ?thesis
    using h1 h3 flood_world_second uninterrupted_flood_world r
    by (auto simp: start_state_def in_existing_def)
qed

text \<open>
  C3, as stated, fails on a single flood wait: with three links and a flood wait of 120
  seconds at the second, the run returns \<open>failed = 1\<close> and the second link in
  \<open>failed_chats\<close>.
\<close>

theorem flood_wait_counted_as_failure_counterexample:
  "fst (join_chats flood_world three_links 0 10)
     = Return (ResultsDict
         \<lparr>success = 2, failed = 1, failed_chats = [(''https://t.me/b'', WaitSeconds 120)],
          captcha_required = [], captcha_screenshots = [], captcha_solved = [],
          already_member = 0\<rparr>)"
  by code_simp

text \<open>
  C1 at a failing input. Three links, a flood wait of 120 seconds at the second: the
  sleeps are 10, 120 and then 60, not 10, since the handler sets \<open>current_delay\<close> back
  but leaves \<open>join_count\<close> at 1, so the next join is counted as the second.
\<close>

theorem flood_wait_leaves_join_count:
  "sleeps (trace (snd (join_chats flood_world three_links 0 10))) = [10, 120, 60]
   \<and> join_count (snd (join_chats flood_world three_links 0 10)) = 2
   \<and> attempts (trace (snd (join_chats flood_world three_links 0 10)))
       = [JoinChannelRequest ''a'', JoinChannelRequest ''b'', JoinChannelRequest ''c'']"
  by code_simp

text \<open>
  What the membership test reads: the last segment of the link, whatever the kind of the
  link, against the usernames of the channel dialogs.
\<close>

lemma in_set_map_filter:
  "y \<in> set (List.map_filter f xs) \<longleftrightarrow> (\<exists>x\<in>set xs. f x = Some y)"
  by (induction xs) (auto simp: List.map_filter_simps split: option.splits)

lemma in_existing_iff:
  "in_existing (existing_chats dialogs) link \<longleftrightarrow>
     (\<exists>d\<in>set dialogs. is_channel d \<and>
        (\<exists>u. username d = Some u \<and> u \<noteq> [] \<and> lower u = lower (last_segment link)))"
proof -
  define f where "f d = (if is_channel d
                  then (case username d of
                          None \<Rightarrow> None
                        | Some u \<Rightarrow> if u \<noteq> [] then Some (lower u) else None)
                  else None)" for d :: dialog
  have "f d = Some y \<longleftrightarrow> is_channel d \<and> (\<exists>u. username d = Some u \<and> u \<noteq> [] \<and> lower u = y)"
    for d y by (cases "username d") (auto simp: f_def)
  moreover have "existing_chats dialogs = set (List.map_filter f dialogs)"
    by (simp add: existing_chats_def f_def [abs_def])
  ultimately show ?thesis by (simp add: in_existing_def in_set_map_filter)
qed

text \<open>
  C7 at a failing input. The account is in a public channel with the username \<open>AbC123\<close>
  and the list holds the invite link \<open>https://t.me/joinchat/AbC123\<close>: the filter compares
  the lower-cased last segment of every link with the usernames, so the invite is counted
  in \<open>already_member\<close> and no request is sent for it.
\<close>

theorem invite_skipped_as_member:
  "in_existing (existing_chats (dialogs_of member_world)) ''https://t.me/joinchat/AbC123''
   \<and> is_invite ''https://t.me/joinchat/AbC123''
   \<and> fst (join_chats member_world [''https://t.me/joinchat/AbC123''] 0 10)
       = Return (ResultsDict (zero_results\<lparr>already_member := 1\<rparr>))
   \<and> attempts (trace (snd (join_chats member_world [''https://t.me/joinchat/AbC123''] 0 10)))
       = []"
  by code_simp

text \<open>
  C8. Whatever the world does, the call returns the \<open>results\<close> dictionary as it stands at
  the end: never an error dictionary, never an exception. For the empty list the body
  returns the error dictionary, the caller gets the results with all counters zero, and
  nothing was requested, slept or sent.
\<close>

theorem join_chats_always_returns_results:
  "fst (join_chats env chat_links jc d)
     = Return (ResultsDict (results_of (snd (join_chats env chat_links jc d))))
   \<and> fst (join_chats env chat_links jc d) \<noteq> Return (ErrorDict t)
   \<and> fst (join_chats env chat_links jc d) \<noteq> Raise e
   \<and> fst (join_chats_body env [] (start_state jc d)) = Return (ErrorDict EmptyLinkList)
   \<and> fst (join_chats env [] jc d) = Return (ResultsDict zero_results)
   \<and> trace (snd (join_chats env [] jc d)) = []"
  by (simp add: join_chats_returns_results join_chats_empty join_chats_body_def
      start_state_def)

text \<open>
  What the body left pending in four worlds, and what the caller gets: an early return of
  an error dictionary, an \<open>Exception\<close> that the outer clause turns into one, and an
  exception that no clause catches.
\<close>

lemma pending_completions_superseded:
  "fst (join_chats_body ((calm [])\<lparr>client_present := False\<rparr>) three_links (start_state 0 10))
     = Return (ErrorDict ClientNotInitialized)"
  "fst (join_chats ((calm [])\<lparr>client_present := False\<rparr>) three_links 0 10)
     = Return (ResultsDict zero_results)"
  "fst (join_chats_body unauthorized_world three_links (start_state 0 10))
     = Return (ErrorDict ClientNotAuthorized)"
  "fst (join_chats unauthorized_world three_links 0 10) = Return (ResultsDict zero_results)"
  "fst (join_chats_body ((calm [])\<lparr>get_dialogs := Inl (Exception ''timeout'')\<rparr>) three_links
          (start_state 0 10)) = Raise (Exception ''timeout'')"
  "except_Exception (Raise (Exception ''timeout'')) = Return (ErrorDict (Str ''timeout''))"
  "fst (join_chats ((calm [])\<lparr>get_dialogs := Inl (Exception ''timeout'')\<rparr>) three_links 0 10)
     = Return (ResultsDict zero_results)"
  "fst (join_chats_body cancelled_world three_links (start_state 0 10))
     = Raise (BaseException ''CancelledError'')"
  "except_Exception (Raise (BaseException ''CancelledError''))
     = Raise (BaseException ''CancelledError'')"
  "fst (join_chats cancelled_world three_links 0 10) = Return (ResultsDict zero_results)"
  by code_simp+

text \<open>A captcha error, another error and a join in one run.\<close>

lemma failure_kinds_example:
  "fst (join_chats ((calm [])\<lparr>join_result :=
          (\<lambda>i. if i = 1 then Some (Exception ''CAPTCHA required'')
                else if i = 2 then Some (Exception ''No user has b as username'')
                else None)\<rparr>) three_links 0 10)
     = Return (ResultsDict
         \<lparr>success = 1, failed = 2,
          failed_chats = [(''https://t.me/b'', Str ''No user has b as username'')],
          captcha_required = [''https://t.me/a''], captcha_screenshots = [],
          captcha_solved = [], already_member = 0\<rparr>)"
  "sleeps (trace (snd (join_chats ((calm [])\<lparr>join_result :=
          (\<lambda>i. if i = 1 then Some (Exception ''CAPTCHA required'')
                else if i = 2 then Some (Exception ''No user has b as username'')
                else None)\<rparr>) three_links 0 10))) = [10]"
  by code_simp+

section \<open>The delay ramp\<close>

lemma round_half_even_lower: "z - 1 / 2 \<le> of_int (round_half_even z)"
proof -
  have "of_int \<lfloor>z\<rfloor> \<le> z" "z < of_int \<lfloor>z\<rfloor> + 1" by linarith+
  then show ?thesis by (auto simp: round_half_even_def Let_def)
qed

lemma float_round_lower:
  assumes "1 \<le> y"
  shows "y * (1 - 1 / 2 ^ 53) \<le> float_round y"
proof -
  define n where "n = nat \<lfloor>y\<rfloor>"
  define k where "k = floorlog 2 n"
  define ulp :: rat where
    "ulp = (if 52 \<le> int k - 1 then 2 ^ nat (int k - 1 - 52) else 1 / 2 ^ nat (52 - (int k - 1)))"
  from assms have n: "0 < n" "of_nat n \<le> y" by (simp_all add: n_def le_floor_iff)
  from floorlog_bounds [of n 2] n(1) have kb: "2 ^ (k - 1) \<le> n" by (simp add: k_def)
  from n(1) have k: "0 < k" by (simp add: k_def floorlog_def)
  have ulp_pos: "0 < ulp" by (simp add: ulp_def)
  define p :: rat where "p = 2 ^ 52"
  have u52: "ulp * p = 2 ^ (k - 1)"
  proof (cases "52 \<le> int k - 1")
    case True
    then have "k - 1 = nat (int k - 1 - 52) + 52" using k by simp
    then have "(2::rat) ^ (k - 1) = 2 ^ nat (int k - 1 - 52) * p"
      unfolding p_def by (simp only: power_add)
    moreover from True have "ulp = 2 ^ nat (int k - 1 - 52)" by (simp add: ulp_def)
    ultimately show ?thesis by simp
  next
    case False
    then have "52 = nat (52 - (int k - 1)) + (k - 1)" using k by simp
    then have "p = 2 ^ nat (52 - (int k - 1)) * 2 ^ (k - 1)"
      unfolding p_def by (simp only: power_add)
    moreover from False have "ulp = 1 / 2 ^ nat (52 - (int k - 1))" by (simp add: ulp_def)
    ultimately show ?thesis by simp
  qed
  have "(2::rat) ^ (k - 1) \<le> of_nat n"
    using kb by (metis of_nat_le_iff of_nat_numeral of_nat_power)
  then have "ulp * p \<le> y" using n(2) u52 by linarith
  then have le: "ulp * 2 ^ 52 \<le> y" by (simp add: p_def)
  have fr: "float_round y = of_int (round_half_even (y / ulp)) * ulp"
    by (simp add: float_round_def ulp_def k_def n_def Let_def)
  have "(y / ulp - 1 / 2) * ulp \<le> of_int (round_half_even (y / ulp)) * ulp"
    using round_half_even_lower [of "y / ulp"] ulp_pos by (simp add: mult_right_mono)
  moreover have "(y / ulp - 1 / 2) * ulp = y - ulp / 2"
    using ulp_pos by (simp add: field_simps)
  moreover have "ulp / 2 \<le> y / 2 ^ 53" using le by (simp add: field_simps)
  ultimately have "y - y / 2 ^ 53 \<le> float_round y" using fr by linarith
  then show ?thesis by (simp add: field_simps)
qed

lemma float_1_1_value: "float_1_1 = 2476979795053773 / 2251799813685248"
  by code_simp

lemma float_mul_grows:
  assumes "1 \<le> x"
  shows "x \<le> float_mul x float_1_1"
proof -
  have c: "1 \<le> float_1_1" by (simp add: float_1_1_value)
  with assms have "1 * 1 \<le> x * float_1_1" by (intro mult_mono) simp_all
  then have "1 \<le> x * float_1_1" by simp
  from float_round_lower [OF this]
  have "x * (float_1_1 * (1 - 1 / 2 ^ 53)) \<le> float_mul x float_1_1"
    by (simp add: float_mul_def mult.assoc)
  moreover have "1 \<le> float_1_1 * (1 - 1 / 2 ^ 53)" by (simp add: float_1_1_value)
  then have "x * 1 \<le> x * (float_1_1 * (1 - 1 / 2 ^ 53))"
    using assms by (intro mult_left_mono) simp_all
  ultimately show ?thesis by simp
qed

lemma ramp_bounds: "10 \<le> ramp k \<and> ramp k \<le> 600"
proof (induction k rule: ramp.induct)
  case 1
  show ?case by simp
next
  case 2
  show ?case by simp
next
  case (3 k)
  then have "1 \<le> ramp (Suc k)" by simp
  from float_mul_grows [OF this] 3 show ?case by simp
qed

lemma ramp_step: "ramp k \<le> ramp (Suc k)"
proof (cases k)
  case 0
  then show ?thesis by simp
next
  case (Suc j)
  have "1 \<le> ramp (Suc j)" using ramp_bounds [of "Suc j"] by simp
  from float_mul_grows [OF this] ramp_bounds [of "Suc j"] Suc show ?thesis by simp
qed

lemma ramp_mono: "i \<le> j \<Longrightarrow> ramp i \<le> ramp j"
  by (rule lift_Suc_mono_le [of ramp]) (simp_all add: ramp_step)

lemma next_delay_ramp:
  assumes "0 < jc \<longrightarrow> d = ramp (jc - 1)"
  shows "next_delay (jc + 1) d = ramp jc"
proof (cases jc rule: ramp.cases)
  case 1
  then show ?thesis by (simp add: next_delay_def)
next
  case 2
  then show ?thesis by (simp add: next_delay_def)
next
  case (3 k)
  with assms show ?thesis by (simp add: next_delay_def)
qed

lemma core_loop_all_joined:
  assumes "\<forall>i. jr i = None" and "\<forall>link\<in>set links. \<not> in_existing existing link"
    and "0 < jc \<longrightarrow> d = ramp (jc - 1)"
  shows "fst (snd (snd (snd (core_loop jr existing i links (res, jc, d, sl, rq)))))
           = sl @ map (\<lambda>k. ramp (jc + k)) [0..<length links]"
  using assms(2,3)
proof (induction links arbitrary: i res jc d sl rq)
  case Nil
  show ?case by simp
next
  case (Cons link links)
  from Cons.prems(2) have nd: "next_delay (jc + 1) d = ramp jc" by (rule next_delay_ramp)
  have st: "core_step (jr i) link (res, jc, d, sl, rq)
        = (res\<lparr>success := success res + 1\<rparr>, jc + 1, ramp jc, sl @ [ramp jc],
           rq @ [request_for link])"
    using assms(1) nd by (simp add: core_step_def)
  have ih: "fst (snd (snd (snd (core_loop jr existing (i + 1) links
            (res\<lparr>success := success res + 1\<rparr>, jc + 1, ramp jc, sl @ [ramp jc],
             rq @ [request_for link])))))
        = (sl @ [ramp jc]) @ map (\<lambda>k. ramp (jc + 1 + k)) [0..<length links]"
    using Cons.prems(1) by (intro Cons.IH) simp_all
  have "map (\<lambda>k. ramp (jc + k)) [0..<length (link # links)]
          = ramp jc # map (\<lambda>k. ramp (jc + 1 + k)) [0..<length links]"
    by (simp add: map_upt_Suc del: upt_Suc ramp.simps)
  with ih st Cons.prems(1) show ?case by (simp del: upt_Suc ramp.simps)
qed

text \<open>
  C5. In a run in which every link is attempted and every request succeeds, there is one
  sleep for each link: 10 seconds after the first join, 60 after the second, and from the
  third on the smaller of 600 and the float product of the previous delay and 1.1. So the
  third delay is 66 and the fourth is the double next to 72.6 (what \<open>66 * 1.1\<close> gives in
  floats). The delays never decrease and none exceeds 600.
\<close>

theorem backoff_delays_after_consecutive_joins:
  assumes "ready env" and "uninterrupted env" and "\<forall>i. join_result env i = None"
    and "\<forall>link\<in>set chat_links. \<not> in_existing (existing_chats (dialogs_of env)) link"
  shows "let ds = sleeps (trace (snd (join_chats env chat_links jc d)))
         in length ds = length chat_links
            \<and> (0 < length ds \<longrightarrow> ds ! 0 = 10)
            \<and> (1 < length ds \<longrightarrow> ds ! 1 = 60)
            \<and> (\<forall>k. 2 \<le> k \<and> k < length ds \<longrightarrow>
                  ds ! k = min 600 (float_mul (ds ! (k - 1)) float_1_1))
            \<and> (2 < length ds \<longrightarrow> ds ! 2 = 66)
            \<and> (3 < length ds \<longrightarrow> \<bar>ds ! 3 - 726 / 10\<bar> < 1 / 10 ^ 13)
            \<and> sorted ds
            \<and> (\<forall>x\<in>set ds. x \<le> 600)"
proof -
  define ds where "ds = sleeps (trace (snd (join_chats env chat_links jc d)))"
  have eq: "ds = map ramp [0..<length chat_links]"
  proof (cases "chat_links = []")
    case True
    then show ?thesis by (simp add: ds_def join_chats_empty start_state_def)
  next
    case False
    define c0 :: core where
      "c0 = (zero_results\<lparr>already_member := length (filter
               (in_existing (existing_chats (dialogs_of env))) chat_links)\<rparr>, 0, 10, [], [])"
    have "core (snd (join_chats env chat_links jc d))
            = core_loop (join_result env) (existing_chats (dialogs_of env)) 1 chat_links c0"
      unfolding c0_def by (rule join_chats_ready [OF assms(1,2) False])
    then have "fst (snd (snd (snd (core (snd (join_chats env chat_links jc d))))))
            = fst (snd (snd (snd (core_loop (join_result env)
                 (existing_chats (dialogs_of env)) 1 chat_links c0))))"
      by simp
    also have "\<dots> = [] @ map (\<lambda>k. ramp (0 + k)) [0..<length chat_links]"
      unfolding c0_def by (rule core_loop_all_joined [OF assms(3,4)]) simp
    finally show ?thesis by (simp add: core_def ds_def)
  qed
  have r2: "ramp 2 = 66" by code_simp
  have r3: "\<bar>ramp 3 - 726 / 10\<bar> < 1 / 10 ^ 13" by code_simp
  have rec: "ds ! k = min 600 (float_mul (ds ! (k - 1)) float_1_1)"
    if "2 \<le> k" "k < length ds" for k
  proof -
    from that obtain j where k: "k = Suc (Suc j)" by (metis Suc_le_D numeral_2_eq_2 Suc_le_mono)
    with that eq show ?thesis by simp
  qed
  have "sorted ds"
    unfolding eq by (simp add: sorted_iff_nth_mono ramp_mono)
  moreover have "\<forall>x\<in>set ds. x \<le> 600" unfolding eq using ramp_bounds by auto
  moreover have "length ds = length chat_links" by (simp add: eq)
  moreover have "0 < length ds \<longrightarrow> ds ! 0 = 10" by (simp add: eq)
  moreover have "1 < length ds \<longrightarrow> ds ! 1 = 60" by (simp add: eq)
  moreover have "2 < length ds \<longrightarrow> ds ! 2 = 66"
    using r2 r2 [unfolded numeral_2_eq_2] by (simp add: eq del: ramp.simps)
  moreover have "3 < length ds \<longrightarrow> \<bar>ds ! 3 - 726 / 10\<bar> < 1 / 10 ^ 13"
    using r3 r3 [unfolded numeral_3_eq_3] by (simp add: eq del: ramp.simps)
  ultimately show ?thesis using rec unfolding ds_def [symmetric] Let_def by blast
qed

lemma ready_calm: "ready (calm dialogs)"
  by (simp add: ready_def calm_def)

lemma uninterrupted_calm: "uninterrupted (calm dialogs)"
  by (simp add: uninterrupted_def calm_def catchable_def)

theorem backoff_delays_after_consecutive_joins_witness:
  "ready (calm []) \<and> uninterrupted (calm []) \<and> (\<forall>i. join_result (calm []) i = None)
   \<and> filter (in_existing (existing_chats (dialogs_of (calm [])))) four_links = []
   \<and> length (sleeps (trace (snd (join_chats (calm []) four_links 0 10)))) = 4
   \<and> sleeps (trace (snd (join_chats (calm []) four_links 0 10))) ! 0 = 10
   \<and> sleeps (trace (snd (join_chats (calm []) four_links 0 10))) ! 1 = 60
   \<and> sleeps (trace (snd (join_chats (calm []) four_links 0 10))) ! 2 = 66
   \<and> \<bar>sleeps (trace (snd (join_chats (calm []) four_links 0 10))) ! 3 - 726 / 10\<bar>
       < 1 / 10 ^ 13
   \<and> sorted (sleeps (trace (snd (join_chats (calm []) four_links 0 10))))"
proof -
  have h3: "\<forall>i. join_result (calm []) i = None" by (simp add: calm_def)
  have h4: "filter (in_existing (existing_chats (dialogs_of (calm [])))) four_links = []"
    by (simp add: existing_chats_def dialogs_of_def calm_def in_existing_def
        List.map_filter_def)
  then have h4': "\<forall>link\<in>set four_links.
      \<not> in_existing (existing_chats (dialogs_of (calm []))) link"
    by (simp add: filter_empty_conv)
  define ds where "ds = sleeps (trace (snd (join_chats (calm []) four_links 0 10)))"
  have n: "length four_links = 4" by (simp add: four_links_def)
  note c = backoff_delays_after_consecutive_joins [OF ready_calm uninterrupted_calm h3 h4',
      of 0 10, unfolded Let_def n, folded ds_def]
  from c have l: "length ds = 4" by blast
  then have p: "0 < length ds" "1 < length ds" "2 < length ds" "3 < length ds" by simp_all
  from c p have "ds ! 0 = 10" "ds ! 1 = 60" "ds ! 2 = 66"
    "\<bar>ds ! 3 - 726 / 10\<bar> < 1 / 10 ^ 13" "sorted ds"
    by blast+
  with l show ?thesis
    unfolding ds_def by (intro conjI ready_calm uninterrupted_calm h3 h4)
qed

lemma four_links_delays:
  "sleeps (trace (snd (join_chats (calm []) four_links 0 10)))
     = [10, 60, 66, 5108770827298407 / 70368744177664]"
  by code_simp

section \<open>The status throttle and the final status\<close>

lemma render_times_append [simp]:
  "render_times (xs @ ys) = render_times xs @ render_times ys"
  by (simp add: render_times_def List.map_filter_def)

lemma render_times_simps [simp]:
  "render_times [] = []" "render_times (Sleep d # tr) = render_times tr"
  "render_times (Attempt q # tr) = render_times tr"
  "render_times (StatusEdit t x True # tr) = t # render_times tr"
  "render_times (StatusEdit t x False # tr) = render_times tr"
  "render_times (Connect # tr) = render_times tr"
  "render_times (FinalEdit b # tr) = render_times tr"
  "render_times (FinalSend b # tr) = render_times tr"
  by (simp_all add: render_times_def List.map_filter_def)

lemma final_events_append [simp]:
  "final_events (xs @ ys) = final_events xs @ final_events ys"
  by (simp add: final_events_def)

lemma final_events_simps [simp]:
  "final_events [] = []" "final_events (Sleep d # tr) = final_events tr"
  "final_events (Attempt q # tr) = final_events tr"
  "final_events (StatusEdit t x b # tr) = final_events tr"
  "final_events (Connect # tr) = final_events tr"
  "final_events (FinalEdit b # tr) = FinalEdit b # final_events tr"
  "final_events (FinalSend b # tr) = FinalSend b # final_events tr"
  by (simp_all add: final_events_def)

lemma spaced_snoc:
  "spaced t0 (ts @ [t]) = (spaced t0 ts \<and> 2000000 \<le> t - last (t0 # ts))"
  by (induction ts arbitrary: t0) auto

text \<open>
  A property of the state that the status updater keeps, that logging a request or a sleep
  keeps, and that reads only the effects and \<open>last_status_update\<close>, is kept by the loop.
\<close>

lemma join_iteration_keeps:
  assumes upd: "\<And>t r x s. P s \<Longrightarrow> P (snd (update_status env t r x s))"
    and att: "\<And>q s. P s \<Longrightarrow> P (log_event (Attempt q) s)"
    and slp: "\<And>d s. P s \<Longrightarrow> P (log_event (Sleep d) s)"
    and frame: "\<And>s s'. P s \<Longrightarrow> trace s' = trace s
                  \<Longrightarrow> last_status_update s' = last_status_update s \<Longrightarrow> P s'"
    and "P s"
  shows "P (snd (join_iteration env existing i link s))"
proof (cases "in_existing existing link")
  case True
  with \<open>P s\<close> show ?thesis by (simp add: join_iteration_def)
next
  case False
  obtain x1 s1 where u: "update_status env (now_progress env i) (edit_progress env i)
      (Progress link) s = (x1, s1)" by (cases "update_status env (now_progress env i)
      (edit_progress env i) (Progress link) s")
  from upd [OF \<open>P s\<close>, of "now_progress env i" "edit_progress env i" "Progress link"] u
  have p1: "P s1" by simp
  have outer: "P (snd (case (x, s') of (None, s'') \<Rightarrow> (None, s'')
       | (Some e, s'') \<Rightarrow> if is_Exception e
           then (None, s''\<lparr>failed := failed s'' + 1,
                            failed_chats := failed_chats s'' @ [(link, Str (exc_str e))]\<rparr>)
           else (Some e, s'')))" if "P s'" for x :: "exc option" and s'
    using that by (auto split: option.splits intro: frame)
  show ?thesis
  proof (cases x1)
    case (Some e)
    with False u outer [OF p1, of "Some e"] show ?thesis by (simp add: join_iteration_def)
  next
    case None
    define s2 where "s2 = snd (join_attempt env i link s1)"
    have a: "join_attempt env i link s1 = (join_result env i, s2)"
      unfolding s2_def by (rule join_attempt_core(1))
    have pa: "P (log_event (Attempt (request_for link)) s1)" by (rule att [OF p1])
    have p2: "P s2"
    proof (cases "join_result env i")
      case None
      have "P (log_event (Sleep (next_delay (join_count s1 + 1) (current_delay s1)))
                 (log_event (Attempt (request_for link)) s1))"
        by (rule slp [OF pa])
      then show ?thesis
        by (rule frame)
          (simp_all add: s2_def join_attempt_def None Let_def request_for_def log_event_def)
    next
      case (Some e)
      from pa show ?thesis
        by (rule frame)
          (simp_all add: s2_def join_attempt_def Some Let_def request_for_def log_event_def)
    qed
    show ?thesis
    proof (cases "join_result env i")
      case jn: None
      with False u None a p2 show ?thesis by (simp add: join_iteration_def)
    next
      case js: (Some e)
      show ?thesis
      proof (cases e)
        case (FloodWaitError w m)
        define s2' where "s2' = s2\<lparr>failed_chats := failed_chats s2 @ [(link, WaitSeconds w)],
                 failed := failed s2 + 1\<rparr>"
        have p2': "P s2'" unfolding s2'_def by (rule frame [OF p2]) simp_all
        obtain x3 s3 where f: "update_status env (now_flood env i) (edit_flood env i)
            (FloodNotice w) s2' = (x3, s3)" by (cases "update_status env (now_flood env i)
            (edit_flood env i) (FloodNotice w) s2'")
        from upd [OF p2', of "now_flood env i" "edit_flood env i" "FloodNotice w"] f
        have p3: "P s3" by simp
        have p4: "P ((log_event (Sleep (of_int w)) s3)\<lparr>current_delay := 10\<rparr>)"
          by (rule frame [OF slp [OF p3]]) simp_all
        have "on_flood_wait env i link w s2
                = (case x3 of Some e' \<Rightarrow> (Some e', s3)
                   | None \<Rightarrow> (None, (log_event (Sleep (of_int w)) s3)\<lparr>current_delay := 10\<rparr>))"
          using f by (simp add: on_flood_wait_def s2'_def)
        then have "P (snd (case on_flood_wait env i link w s2 of (None, s'') \<Rightarrow> (None, s'')
           | (Some e, s'') \<Rightarrow> if is_Exception e
               then (None, s''\<lparr>failed := failed s'' + 1,
                        failed_chats := failed_chats s'' @ [(link, Str (exc_str e))]\<rparr>)
               else (Some e, s'')))"
          using outer [OF p3, of x3] outer [OF p4, of None]
          by (cases x3) simp_all
        with False u None a js FloodWaitError show ?thesis by (simp add: join_iteration_def)
      next
        case (Exception m)
        have "P (on_exception link (Exception m) s2)"
          by (rule frame [OF p2]) (simp_all add: on_exception_def)
        with False u None a js Exception show ?thesis by (simp add: join_iteration_def)
      next
        case (BaseException m)
        with False u None a js p2 show ?thesis by (simp add: join_iteration_def)
      qed
    qed
  qed
qed

lemma join_loop_keeps:
  assumes upd: "\<And>t r x s. P s \<Longrightarrow> P (snd (update_status env t r x s))"
    and att: "\<And>q s. P s \<Longrightarrow> P (log_event (Attempt q) s)"
    and slp: "\<And>d s. P s \<Longrightarrow> P (log_event (Sleep d) s)"
    and frame: "\<And>s s'. P s \<Longrightarrow> trace s' = trace s
                  \<Longrightarrow> last_status_update s' = last_status_update s \<Longrightarrow> P s'"
    and "P s"
  shows "P (snd (join_loop env existing i links s))"
  using \<open>P s\<close>
proof (induction links arbitrary: i s)
  case Nil
  then show ?case by simp
next
  case (Cons link links)
  have p: "P (snd (join_iteration env existing i link s))"
  proof (rule join_iteration_keeps [where P = P])
    show "P (snd (update_status env t r x s))" if "P s" for t r x s
      using that by (rule upd)
    show "P (log_event (Attempt q) s)" if "P s" for q s using that by (rule att)
    show "P (log_event (Sleep d) s)" if "P s" for d s using that by (rule slp)
    show "P s'" if "P s" "trace s' = trace s" "last_status_update s' = last_status_update s"
      for s s' using that by (rule frame)
    show "P s" by (rule Cons.prems)
  qed
  show ?case
  proof (cases "join_iteration env existing i link s")
    case (Pair x s')
    with p have "P s'" by simp
    with Pair Cons.IH [of s' "i + 1"] show ?thesis by (cases x) simp_all
  qed
qed


lemma throttle_inv_frame:
  "throttle_inv t0 s \<Longrightarrow> trace s' = trace s
     \<Longrightarrow> last_status_update s' = last_status_update s \<Longrightarrow> throttle_inv t0 s'"
  by (simp add: throttle_inv_def)

lemma update_status_throttled:
  "t - last_status_update s < 2000000 \<Longrightarrow> update_status env t r x s = (None, s)"
  by (simp add: update_status_def)

lemma update_status_throttle_inv:
  assumes "throttle_inv t0 s"
  shows "throttle_inv t0 (snd (update_status env t r x s))"
proof (cases "t - last_status_update s < 2000000 \<or> \<not> status_live (status_msg env)")
  case True
  with assms show ?thesis by (auto simp: update_status_def)
next
  case False
  show ?thesis
  proof (cases r)
    case None
    with False assms show ?thesis
      by (simp add: update_status_def throttle_inv_def log_event_def spaced_snoc)
  next
    case (Some e)
    with False assms show ?thesis
      by (simp add: update_status_def throttle_inv_def log_event_def)
  qed
qed

lemma join_loop_throttle_inv:
  assumes "throttle_inv t0 s"
  shows "throttle_inv t0 (snd (join_loop env existing i links s))"
proof (rule join_loop_keeps [where P = "throttle_inv t0"])
  show "throttle_inv t0 (snd (update_status env t r x s))" if "throttle_inv t0 s" for t r x s
    using that by (rule update_status_throttle_inv)
  show "throttle_inv t0 (log_event (Attempt q) s)" if "throttle_inv t0 s" for q s
    using that by (simp add: throttle_inv_def log_event_def)
  show "throttle_inv t0 (log_event (Sleep d) s)" if "throttle_inv t0 s" for d s
    using that by (simp add: throttle_inv_def log_event_def)
  show "throttle_inv t0 s'"
    if "throttle_inv t0 s" "trace s' = trace s" "last_status_update s' = last_status_update s"
    for s s' using that by (rule throttle_inv_frame)
  show "throttle_inv t0 s" by (rule assms)
qed

lemma join_loop_no_final:
  assumes "final_events (trace s) = []"
  shows "final_events (trace (snd (join_loop env existing i links s))) = []"
proof (rule join_loop_keeps [where P = "\<lambda>s. final_events (trace s) = []"])
  show "final_events (trace (snd (update_status env t r x s))) = []"
    if "final_events (trace s) = []" for t r x s
    using that by (simp add: update_status_def log_event_def split: option.splits)
  show "final_events (trace (log_event (Attempt q) s)) = []"
    if "final_events (trace s) = []" for q s using that by (simp add: log_event_def)
  show "final_events (trace (log_event (Sleep d) s)) = []"
    if "final_events (trace s) = []" for d s using that by (simp add: log_event_def)
  show "final_events (trace s') = []"
    if "final_events (trace s) = []" "trace s' = trace s" for s s' :: state
    using that by simp
  show "final_events (trace s) = []" by (rule assms)
qed

lemma final_status_events:
  "render_times (trace (snd (final_status env s))) = render_times (trace s)"
  "final_events (trace (snd (final_status env s))) = final_events (trace s) @ expected_final env"
  by (simp_all add: final_status_def expected_final_def log_event_def Let_def
      split: option.splits)

text \<open>The state in which the loop starts once the checks have passed.\<close>

lemma loop_start_state:
  fixes s1 :: state
  assumes "trace s1 = [] \<or> trace s1 = [Connect]"
  shows "throttle_inv t0 ((count_existing existing chat_links s1)
             \<lparr>join_count := 0, current_delay := 10, last_status_update := t0\<rparr>)"
    and "final_events (trace ((count_existing existing chat_links s1)
             \<lparr>join_count := 0, current_delay := 10, last_status_update := t0\<rparr>)) = []"
  using assms(1) by (auto simp: count_existing_fields throttle_inv_def)

lemma join_chats_spaced:
  "spaced (now_start env) (render_times (trace (snd (join_chats env chat_links jc d))))"
proof -
  define s0 where "s0 = start_state jc d"
  define s1 where "s1 = (if is_connected env then s0 else log_event Connect s0)"
  define Q where "Q s = spaced (now_start env) (render_times (trace s))" for s :: state
  have t1: "trace s1 = [] \<or> trace s1 = [Connect]"
    by (simp add: s1_def s0_def start_state_def log_event_def)
  have q0: "Q s0" by (simp add: Q_def s0_def start_state_def)
  have q1: "Q s1" using t1 by (auto simp: Q_def)
  have q4: "Q (snd (join_loop env existing 1 chat_links
         ((count_existing existing chat_links s1)
             \<lparr>join_count := 0, current_delay := 10, last_status_update := now_start env\<rparr>)))"
    for existing
    using join_loop_throttle_inv [OF loop_start_state(1) [OF t1]]
    by (simp add: throttle_inv_def Q_def)
  have q5: "Q (snd (final_status env s))" if "Q s" for s
    using that by (simp add: Q_def final_status_events)
  have "Q (snd (join_chats_body env chat_links s0))"
  proof (cases "chat_links = [] \<or> \<not> client_present env")
    case True
    with q0 show ?thesis by (auto simp: join_chats_body_def)
  next
    case pre: False
    have c: "(if \<not> is_connected env then (connect_result env, log_event Connect s0)
              else (None, s0))
             = (if is_connected env then None else connect_result env, s1)"
      by (simp add: s1_def)
    show ?thesis
    proof (cases "if is_connected env then None else connect_result env")
      case (Some e)
      with pre c q1 show ?thesis by (simp add: join_chats_body_def)
    next
      case conn: None
      show ?thesis
      proof (cases "is_user_authorized env")
        case (Inl e)
        with pre c conn q1 show ?thesis by (simp add: join_chats_body_def)
      next
        case auth: (Inr b)
        show ?thesis
        proof (cases b)
          case False
          with pre c conn auth q1 show ?thesis by (simp add: join_chats_body_def)
        next
          case True
          show ?thesis
          proof (cases "get_dialogs env")
            case (Inl e)
            with pre c conn auth True q1 show ?thesis by (simp add: join_chats_body_def)
          next
            case (Inr dialogs)
            define s3 where "s3 = (count_existing (existing_chats dialogs) chat_links s1)
              \<lparr>join_count := 0, current_delay := 10, last_status_update := now_start env\<rparr>"
            obtain x s4 where l: "join_loop env (existing_chats dialogs) 1 chat_links s3 = (x, s4)"
              by (cases "join_loop env (existing_chats dialogs) 1 chat_links s3")
            from q4 [of "existing_chats dialogs"] l have q: "Q s4" by (simp add: s3_def)
            show ?thesis
            proof (cases x)
              case None
              with pre c conn auth True Inr l q5 [OF q] show ?thesis
                by (auto simp: join_chats_body_def s3_def Let_def split: prod.splits
                    option.splits)
            next
              case (Some e)
              with pre c conn auth True Inr l q show ?thesis
                by (simp add: join_chats_body_def s3_def Let_def)
            qed
          qed
        qed
      qed
    qed
  qed
  then show ?thesis by (auto simp: join_chats_def s0_def Q_def split: prod.splits)
qed

lemma join_chats_final_events:
  assumes "ready env" and "uninterrupted env" and "chat_links \<noteq> []"
  shows "final_events (trace (snd (join_chats env chat_links jc d))) = expected_final env"
proof -
  from assms(1) obtain dialogs where d: "get_dialogs env = Inr dialogs"
    by (auto simp: ready_def split: sum.splits)
  define s1 where "s1 = (if is_connected env then start_state jc d
                          else log_event Connect (start_state jc d))"
  define s3 where "s3 = (count_existing (existing_chats dialogs) chat_links s1)
            \<lparr>join_count := 0, current_delay := 10, last_status_update := now_start env\<rparr>"
  have t1: "trace s1 = [] \<or> trace s1 = [Connect]"
    by (simp add: s1_def start_state_def log_event_def)
  from join_loop_core [OF assms(2), of "existing_chats dialogs" 1 chat_links s3]
  obtain s4 where l: "join_loop env (existing_chats dialogs) 1 chat_links s3 = (None, s4)"
    by blast
  have "final_events (trace s3) = []"
    unfolding s3_def by (rule loop_start_state(2) [OF t1])
  from join_loop_no_final [OF this, of env "existing_chats dialogs" 1 chat_links] l
  have f4: "final_events (trace s4) = []" by simp
  have "snd (join_chats env chat_links jc d) = snd (final_status env s4)"
    using assms(1,3) d l
    by (auto simp: join_chats_def join_chats_body_def ready_def s3_def s1_def Let_def
        split: prod.splits option.splits)
  with f4 show ?thesis by (simp add: final_status_events)
qed

text \<open>
  C9, as the code has it. A call of the status updater less than two seconds after
  \<open>last_status_update\<close> (the last successful edit, or the start of the loop before the
  first) edits nothing and changes nothing; in every run the successful in-loop edits are
  at least two seconds apart. The final status does not look at the clock: when the checks
  pass and the loop is not interrupted, the final events are exactly those of
  \<open>expected_final\<close>, whatever happened to the edits inside the loop: one edit when the
  status message is there and not deleted, with one plain send after it when that edit
  raised an \<open>Exception\<close>, and nothing at all when the status message is missing or deleted.
\<close>

theorem status_throttle_and_final_summary:
  "(t - last_status_update s < 2000000 \<longrightarrow> update_status env t r x s = (None, s))
   \<and> spaced (now_start env) (render_times (trace (snd (join_chats env chat_links jc d))))
   \<and> (ready env \<and> uninterrupted env \<and> chat_links \<noteq> [] \<longrightarrow>
        final_events (trace (snd (join_chats env chat_links jc d))) = expected_final env)"
  by (simp add: update_status_throttled join_chats_spaced join_chats_final_events)

lemma ready_ticking_world: "ready ticking_world"
  by (simp add: ready_def ticking_world_def calm_def)

lemma uninterrupted_ticking_world: "uninterrupted ticking_world"
  by (simp add: uninterrupted_def ticking_world_def calm_def catchable_def)

theorem status_throttle_and_final_summary_witness:
  "1000000 - last_status_update (start_state 0 10) < 2000000
   \<and> update_status ticking_world 1000000 None (Progress ''https://t.me/a'') (start_state 0 10)
       = (None, start_state 0 10)
   \<and> ready ticking_world \<and> uninterrupted ticking_world \<and> three_links \<noteq> []
   \<and> render_times (trace (snd (join_chats ticking_world three_links 0 10)))
       = [6000000, 9000000]
   \<and> spaced (now_start ticking_world)
        (render_times (trace (snd (join_chats ticking_world three_links 0 10))))
   \<and> final_events (trace (snd (join_chats ticking_world three_links 0 10)))
       = [FinalEdit True]"
proof -
  have h1: "1000000 - last_status_update (start_state 0 10) < 2000000"
    by (simp add: start_state_def)
  have h2: "three_links \<noteq> []" by (simp add: three_links_def)
  have e: "expected_final ticking_world = [FinalEdit True]"
    by (simp add: expected_final_def ticking_world_def calm_def status_live_def)
  have r: "render_times (trace (snd (join_chats ticking_world three_links 0 10)))
       = [6000000, 9000000]" by code_simp
  note c = status_throttle_and_final_summary [of 1000000 "start_state 0 10" ticking_world None
      "Progress ''https://t.me/a''" three_links 0 10]
  from c h1 have c1: "update_status ticking_world 1000000 None (Progress ''https://t.me/a'')
      (start_state 0 10) = (None, start_state 0 10)" by blast
  from c have c2: "spaced (now_start ticking_world)
        (render_times (trace (snd (join_chats ticking_world three_links 0 10))))" by blast
  from c ready_ticking_world uninterrupted_ticking_world h2 e
  have c3: "final_events (trace (snd (join_chats ticking_world three_links 0 10)))
       = [FinalEdit True]" by simp
  show ?thesis
    by (intro conjI h1 c1 ready_ticking_world uninterrupted_ticking_world h2 r c2 c3)
qed

text \<open>
  C9, as stated, fails on the final summary: without a status message the run joins all
  three links and returns, and no final edit or send is attempted.
\<close>

theorem final_summary_skipped_counterexample:
  "final_events (trace (snd (join_chats no_status_world three_links 0 10))) = []
   \<and> attempts (trace (snd (join_chats no_status_world three_links 0 10)))
       = [JoinChannelRequest ''a'', JoinChannelRequest ''b'', JoinChannelRequest ''c'']
   \<and> fst (join_chats no_status_world three_links 0 10)
       = Return (ResultsDict (zero_results\<lparr>success := 3\<rparr>))"
  by code_simp

end
